theory Spec2Isabelle
  imports Complex_Main "HOL-Library.Word"
begin

section \<open>Strings of the page script\<close>

text \<open>
  A JavaScript string is a sequence of 16-bit code units; \<open>length\<close> counts code units,
  as the \<^verbatim>\<open>length\<close> property does. \<open>js\<close> writes an ASCII literal of the source as
  such a string.
\<close>

type_synonym char16 = "16 word"
type_synonym jsstring = "char16 list"

definition js :: "string \<Rightarrow> jsstring" where
  "js s = map (\<lambda>c. of_char c) s"

text \<open>
  The code units that ECMAScript calls white space or line terminator: \<^verbatim>\<open>trim\<close>,
  the class escape \<^verbatim>\<open>\s\<close> and \<^verbatim>\<open>parseInt\<close> all use this one set (TAB, LF, VT, FF,
  CR, SPACE, NBSP, U+1680, U+2000 to U+200A, U+2028, U+2029, U+202F, U+205F, U+3000,
  U+FEFF).
\<close>

definition white_space :: "char16 \<Rightarrow> bool" where
  "white_space c =
     (c \<in> set [0x09, 0x0A, 0x0B, 0x0C, 0x0D, 0x20, 0xA0, 0x1680, 0x2028, 0x2029,
                0x202F, 0x205F, 0x3000, 0xFEFF]
      \<or> (0x2000 \<le> c \<and> c \<le> 0x200A))"

text \<open>\<^verbatim>\<open>String.prototype.trim\<close>: white space is removed at both ends, nowhere else.\<close>

definition trim :: "jsstring \<Rightarrow> jsstring" where
  "trim s = rev (dropWhile white_space (rev (dropWhile white_space s)))"

section \<open>Regular expressions\<close>

text \<open>
  The two patterns of the submit handler use assertions \<^verbatim>\<open>^\<close> and \<^verbatim>\<open>$\<close>, literal code
  units, character classes (possibly negated, with ranges and \<^verbatim>\<open>\s\<close>), sequencing and
  greedy quantifiers \<^verbatim>\<open>+\<close> and \<^verbatim>\<open>{m,n}\<close>. No flag is set: matching is by code unit,
  case sensitive, and \<^verbatim>\<open>^\<close> and \<^verbatim>\<open>$\<close> stand for the two ends of the input only.
\<close>

datatype class_atom =
    Single char16
  | Range char16 char16
  | EscapeS

datatype regex =
    Bol
  | Eol
  | Lit char16
  | Class bool "class_atom list"
  | Seq regex regex
  | Quant regex nat "nat option"

fun class_atom_matches :: "class_atom \<Rightarrow> char16 \<Rightarrow> bool" where
  "class_atom_matches (Single a) c = (c = a)"
| "class_atom_matches (Range a b) c = (a \<le> c \<and> c \<le> b)"
| "class_atom_matches EscapeS c = white_space c"

text \<open>\<open>Class negated atoms\<close>: the flag is set for a class written \<^verbatim>\<open>[^...]\<close>.\<close>

definition class_matches :: "bool \<Rightarrow> class_atom list \<Rightarrow> char16 \<Rightarrow> bool" where
  "class_matches negated atoms c = (list_ex (\<lambda>a. class_atom_matches a c) atoms \<noteq> negated)"

text \<open>
  A match state is the index reached and the input that is left. A matcher returns the
  states it can end in, in the order in which backtracking tries them.
\<close>

type_synonym mstate = "nat \<times> jsstring"

definition one_unit :: "(char16 \<Rightarrow> bool) \<Rightarrow> mstate \<Rightarrow> mstate list" where
  "one_unit p x =
     (case snd x of
        [] \<Rightarrow> []
      | c # cs \<Rightarrow> if p c then [(Suc (fst x), cs)] else [])"

text \<open>
  The quantifier \<^verbatim>\<open>{lo,hi}\<close> (\<open>hi = None\<close> when unbounded) of ECMAScript's RepeatMatcher,
  greedy: with the maximum used up the rest of the pattern continues; otherwise one more
  iteration is tried first, and, once the minimum is reached, an iteration that consumed
  nothing is given up and stopping here is the last alternative.
\<close>

function repeat :: "(mstate \<Rightarrow> mstate list) \<Rightarrow> nat \<Rightarrow> nat option \<Rightarrow> mstate \<Rightarrow> mstate list" where
  "repeat m lo hi x =
     (if hi = Some 0 then [x]
      else
        (let d = (\<lambda>y. if lo = 0 \<and> \<not> length (snd y) < length (snd x) then []
                       else repeat m (lo - 1) (map_option (\<lambda>h. h - 1) hi) y);
             z = concat (map d (m x))
         in if lo \<noteq> 0 then z else z @ [x]))"
  by pat_completeness auto
termination
  by (relation "measures [\<lambda>(m, lo, hi, x). lo, \<lambda>(m, lo, hi, x). length (snd x)]") auto

declare repeat.simps [simp del]

primrec matcher :: "regex \<Rightarrow> mstate \<Rightarrow> mstate list" where
  "matcher Bol x = (if fst x = 0 then [x] else [])"
| "matcher Eol x = (if snd x = [] then [x] else [])"
| "matcher (Lit a) x = one_unit (\<lambda>c. c = a) x"
| "matcher (Class negated atoms) x = one_unit (class_matches negated atoms) x"
| "matcher (Seq a b) x = concat (map (matcher b) (matcher a x))"
| "matcher (Quant a lo hi) x = repeat (matcher a) lo hi x"

text \<open>
  \<^verbatim>\<open>RegExp.prototype.test\<close> of a pattern without the global or sticky flag: the match is
  tried at index 0, then at each later index up to the length of the input.
\<close>

fun scan :: "regex \<Rightarrow> nat \<Rightarrow> jsstring \<Rightarrow> bool" where
  "scan r i [] = (matcher r (i, []) \<noteq> [])"
| "scan r i (c # cs) = (matcher r (i, c # cs) \<noteq> [] \<or> scan r (Suc i) cs)"

definition test :: "regex \<Rightarrow> jsstring \<Rightarrow> bool" where
  "test r s = scan r 0 s"

text \<open>
  \<^verbatim>\<open>/^[a-zA-Z\xC0-\uFFFF]+([ \-']{0,1}[a-zA-Z\xC0-\uFFFF]+){0,2}[.]{0,1}$/\<close>
\<close>

definition letters :: regex where
  "letters = Quant (Class False [Range 0x61 0x7A, Range 0x41 0x5A, Range 0xC0 0xFFFF]) 1 None"

definition regexNames :: regex where
  "regexNames =
     Seq Bol
    (Seq letters
    (Seq (Quant (Seq (Quant (Class False [Single 0x20, Single 0x2D, Single 0x27]) 0 (Some 1))
                     letters) 0 (Some 2))
    (Seq (Quant (Class False [Single 0x2E]) 0 (Some 1))
         Eol)))"

text \<open>\<^verbatim>\<open>/^[^\s@]+@[^\s@]+\.[^\s@]+$/\<close>\<close>

definition segment :: regex where
  "segment = Quant (Class True [EscapeS, Single 0x40]) 1 None"

definition regexEmail :: regex where
  "regexEmail =
     Seq Bol (Seq segment (Seq (Lit 0x40) (Seq segment (Seq (Lit 0x2E) (Seq segment Eol)))))"

section \<open>Numbers\<close>

text \<open>
  A JavaScript number is NaN, an infinity, or a finite double, kept here by its exact
  value (the two zeros are one value; \<^verbatim>\<open>===\<close> does not tell them apart either).
\<close>

datatype number =
    NaN
  | Finite rat
  | PosInfinity
  | NegInfinity

text \<open>\<^verbatim>\<open>a === b\<close> on numbers: NaN equals nothing, itself included.\<close>

definition strict_equals :: "number \<Rightarrow> number \<Rightarrow> bool" where
  "strict_equals a b = (a \<noteq> NaN \<and> b \<noteq> NaN \<and> a = b)"

fun bit_length :: "nat \<Rightarrow> nat" where
  "bit_length n = (if n = 0 then 0 else Suc (bit_length (n div 2)))"

text \<open>
  The double nearest to a natural number, ties to the even significand of 53 bits;
  from \<open>2 ^ 1024\<close> on the result is infinite. Up to \<open>2 ^ 53\<close> the number is its own double.
\<close>

definition nearest_double :: "nat \<Rightarrow> nat option" where
  "nearest_double m =
     (if m \<le> 2 ^ 53 then Some m
      else
        (let e = bit_length m - 53;
             q = m div 2 ^ e;
             r = m mod 2 ^ e;
             half = 2 ^ (e - 1);
             q' = (if half < r \<or> (r = half \<and> odd q) then q + 1 else q);
             v = q' * 2 ^ e
         in if 2 ^ 1024 \<le> v then None else Some v))"

definition to_number :: "bool \<Rightarrow> nat \<Rightarrow> number" where
  "to_number negative m =
     (case nearest_double m of
        None \<Rightarrow> (if negative then NegInfinity else PosInfinity)
      | Some v \<Rightarrow> Finite (if negative then - of_nat v else of_nat v))"

definition digit :: "char16 \<Rightarrow> bool" where
  "digit c = (0x30 \<le> c \<and> c \<le> 0x39)"

definition digits_value :: "jsstring \<Rightarrow> nat" where
  "digits_value ds = foldl (\<lambda>a c. 10 * a + unat (c - 0x30)) 0 ds"

text \<open>
  \<^verbatim>\<open>parseInt(string, 10)\<close>: leading white space is skipped, one sign is read, then the
  longest run of decimal digits; what follows the run is ignored. No digit gives NaN.
  (With radix 10 given, no \<^verbatim>\<open>0x\<close> prefix is recognised. For more than 20 significant
  digits ECMAScript lets an implementation approximate; the model takes the exact
  integer.)
\<close>

definition parseInt10 :: "jsstring \<Rightarrow> number" where
  "parseInt10 string =
     (let S = dropWhile white_space string;
          negative = (S \<noteq> [] \<and> hd S = 0x2D);
          S' = (if S \<noteq> [] \<and> (hd S = 0x2B \<or> hd S = 0x2D) then tl S else S);
          Z = takeWhile digit S'
      in if Z = [] then NaN else to_number negative (digits_value Z))"

section \<open>The page\<close>

text \<open>
  The document is a store of elements, addressed by node, and the resolution of the
  selectors the script queries (\<^verbatim>\<open>document.querySelector\<close> gives the node or null). Two
  selectors may resolve to one node. Of an element the model keeps what the script reads
  or writes: the value of a form control, the flag \<^verbatim>\<open>validity.valid\<close> the browser
  computes for it, \<^verbatim>\<open>style.display\<close> and \<^verbatim>\<open>textContent\<close>. The script never changes
  an attribute a selector depends on, so the resolution is fixed during a run.
\<close>

type_synonym node = nat

record element =
  input_value :: jsstring
  validity_valid :: bool
  style_display :: string
  textContent :: jsstring

text \<open>What the script can throw or have thrown at it.\<close>

datatype exception =
    TypeError
  | NetworkError
  | HttpError nat
  | SyntaxError

text \<open>
  A profile record as the remote store delivers it: of each record the script consumes
  the numeric identifier and the name.
\<close>

record photographer =
  p_id :: number
  p_name :: jsstring

datatype arg =
    Text string
  | Str jsstring
  | Found "photographer option"
  | Thrown exception

datatype console_entry =
    ConsoleLog "arg list"
  | ConsoleError "arg list"

record request =
  url :: string
  headers :: "(string \<times> string) list"

text \<open>
  The page: the document, the pairs of \<^verbatim>\<open>window.location.search\<close> as
  \<^verbatim>\<open>URLSearchParams\<close> parses them, and the traces of the effects: the console, the
  requests issued, whether the default action of the submit event was prevented, and how
  often the modal's close operation was called.
\<close>

record page =
  querySelector :: "string \<Rightarrow> node option"
  elements :: "node \<Rightarrow> element"
  search_params :: "(jsstring \<times> jsstring) list"
  console :: "console_entry list"
  requests :: "request list"
  defaultPrevented :: bool
  closeModal_calls :: nat

text \<open>Sequencing: a throw ends the run, a result goes on to the next statement.\<close>

definition and_then :: "exception + 'a \<Rightarrow> ('a \<Rightarrow> exception + 'b) \<Rightarrow> exception + 'b" where
  "and_then r next_step = (case r of Inl thrown \<Rightarrow> Inl thrown | Inr a \<Rightarrow> next_step a)"

definition console_log :: "arg list \<Rightarrow> page \<Rightarrow> page" where
  "console_log args p = p\<lparr>console := console p @ [ConsoleLog args]\<rparr>"

definition console_error :: "arg list \<Rightarrow> page \<Rightarrow> page" where
  "console_error args p = p\<lparr>console := console p @ [ConsoleError args]\<rparr>"

text \<open>\<^verbatim>\<open>field.value\<close>, a TypeError when the field is null.\<close>

definition value_of :: "node option \<Rightarrow> page \<Rightarrow> exception + jsstring" where
  "value_of field p =
     (case field of None \<Rightarrow> Inl TypeError | Some n \<Rightarrow> Inr (input_value (elements p n)))"

text \<open>\<^verbatim>\<open>field.validity.valid\<close>.\<close>

definition valid_of :: "node option \<Rightarrow> page \<Rightarrow> exception + bool" where
  "valid_of field p =
     (case field of None \<Rightarrow> Inl TypeError | Some n \<Rightarrow> Inr (validity_valid (elements p n)))"

text \<open>\<^verbatim>\<open>document.querySelector(selector).style.display = v\<close>.\<close>

definition set_display :: "string \<Rightarrow> string \<Rightarrow> page \<Rightarrow> exception + page" where
  "set_display selector v p =
     (case querySelector p selector of
        None \<Rightarrow> Inl TypeError
      | Some n \<Rightarrow> Inr (p\<lparr>elements := (elements p)(n := (elements p n)\<lparr>style_display := v\<rparr>)\<rparr>))"

section \<open>FormValidator: the submit handler\<close>

text \<open>
  The conditions of the three \<^verbatim>\<open>if\<close> statements, on the values they read. The name
  check trims before both tests; the email check trims for the length only and gives the
  pattern the value as it is.
\<close>

definition name_invalid :: "jsstring \<Rightarrow> bool" where
  "name_invalid v = (length (trim v) < 2 \<or> \<not> test regexNames (trim v))"

definition email_invalid :: "jsstring \<Rightarrow> bool \<Rightarrow> bool" where
  "email_invalid v valid = (length (trim v) < 2 \<or> \<not> valid \<or> \<not> test regexEmail v)"

definition message_invalid :: "jsstring \<Rightarrow> bool" where
  "message_invalid v = (length (trim v) < 2)"

text \<open>
  The three inner functions share the handler's variable \<^verbatim>\<open>errors\<close>: each takes its
  current value with the page and returns both. A failed check shows the indicator and
  sets the flag; a passed check hides the indicator and leaves the flag. The value is
  logged last.
\<close>

definition validateName :: "node option \<Rightarrow> string \<Rightarrow> bool \<times> page \<Rightarrow> exception + bool \<times> page" where
  "validateName field errorClass st =
     (case st of (errors, p) \<Rightarrow>
        and_then (value_of field p) (\<lambda>v.
        and_then (if name_invalid v
              then and_then (set_display errorClass ''inline'' p) (\<lambda>p'. Inr (True, p'))
              else and_then (set_display errorClass ''none'' p) (\<lambda>p'. Inr (errors, p')))
          (\<lambda>(errors', p').
        and_then (value_of field p') (\<lambda>v'. Inr (errors', console_log [Str v'] p')))))"

definition validateEmail :: "node option \<Rightarrow> bool \<times> page \<Rightarrow> exception + bool \<times> page" where
  "validateEmail email st =
     (case st of (errors, p) \<Rightarrow>
        and_then (value_of email p) (\<lambda>v.
        and_then (valid_of email p) (\<lambda>valid.
        and_then (if email_invalid v valid
              then and_then (set_display ''.errorEmail'' ''inline'' p) (\<lambda>p'. Inr (True, p'))
              else and_then (set_display ''.errorEmail'' ''none'' p) (\<lambda>p'. Inr (errors, p')))
          (\<lambda>(errors', p').
        and_then (value_of email p') (\<lambda>v'. Inr (errors', console_log [Str v'] p'))))))"

definition validateMessage :: "node option \<Rightarrow> bool \<times> page \<Rightarrow> exception + bool \<times> page" where
  "validateMessage message st =
     (case st of (errors, p) \<Rightarrow>
        and_then (value_of message p) (\<lambda>v.
        and_then (if message_invalid v
              then and_then (set_display ''.errorMessage'' ''inline'' p) (\<lambda>p'. Inr (True, p'))
              else and_then (set_display ''.errorMessage'' ''none'' p) (\<lambda>p'. Inr (errors, p')))
          (\<lambda>(errors', p').
        and_then (value_of message p') (\<lambda>v'. Inr (errors', console_log [Str v'] p')))))"

text \<open>
  Modelled from the spec: \<^verbatim>\<open>closeModal\<close> is defined by another script of the site, not
  under src/. The spec has it as an externally defined operation called with no
  arguments; the model records each call.
\<close>

definition closeModal :: "page \<Rightarrow> page" where
  "closeModal p = p\<lparr>closeModal_calls := Suc (closeModal_calls p)\<rparr>"

text \<open>
  The four calls of the handler, from \<^verbatim>\<open>errors = false\<close>, in the order of the source;
  the result is the final value of \<^verbatim>\<open>errors\<close> and the page.
\<close>

definition perform_validation :: "page \<Rightarrow> exception + bool \<times> page" where
  "perform_validation p =
     (let first = querySelector p ''#first'';
          last = querySelector p ''#last'';
          email = querySelector p ''#email'';
          message = querySelector p ''#message''
      in and_then (validateName first ''.errorFirst'' (False, p)) (\<lambda>st1.
         and_then (validateName last ''.errorLast'' st1) (\<lambda>st2.
         and_then (validateEmail email st2) (\<lambda>st3.
         validateMessage message st3))))"

text \<open>The listener: its return value and the page it leaves, or the exception it throws.\<close>

definition submit_handler :: "page \<Rightarrow> exception + bool \<times> page" where
  "submit_handler p =
     and_then (perform_validation (p\<lparr>defaultPrevented := True\<rparr>)) (\<lambda>(errors, p').
       Inr (\<not> errors, if \<not> errors then closeModal p' else p'))"

section \<open>ProfileLoader\<close>

text \<open>
  The model covers the runs in which the request settles (no timeout is implemented: a
  request that never settles leaves \<^verbatim>\<open>initForm\<close> suspended at its \<^verbatim>\<open>await\<close>).
  What the network gives back to the one request, by what the script does with it:
  \<^verbatim>\<open>fetch\<close> rejects; or there is a response with a status, whose body is no JSON
  (\<^verbatim>\<open>response.json()\<close> rejects), or JSON in which \<^verbatim>\<open>data.record.photographers\<close> is no
  array of records (evaluating line 25 throws a TypeError), or JSON with the collection
  of records.
\<close>

datatype body =
    InvalidJson
  | NoCollection
  | Photographers "photographer list"

record response =
  status :: nat
  payload :: body

datatype fetched =
    Rejected
  | Response response

text \<open>\<^verbatim>\<open>response.ok\<close>: the status is in the range 200 to 299.\<close>

definition ok :: "response \<Rightarrow> bool" where
  "ok r = (200 \<le> status r \<and> status r \<le> 299)"

definition the_request :: request where
  "the_request =
     \<lparr>url = ''https://api.jsonbin.io/v3/b/660d15e2ad19ca34f854284c'',
      headers = [(''X-Master-Key'',
                  ''$2a$10$qbfGIDJdT4VtlhBqXNLnXO5PaWdVaDRbrEJjAk6T5riM8VLv7mP.a'')]\<rparr>"

text \<open>
  The body of the \<^verbatim>\<open>try\<close> block: \<open>Inl\<close> is a throw, with the page as it is then.
  \<^verbatim>\<open>find\<close> returns the first record whose identifier is strictly equal to the parsed
  one, or undefined (\<open>None\<close>).
\<close>

definition try_block :: "jsstring \<Rightarrow> fetched \<Rightarrow> page \<Rightarrow> exception \<times> page + photographer option \<times> page" where
  "try_block photographerId net p =
     (let p1 = p\<lparr>requests := requests p @ [the_request]\<rparr>
      in case net of
           Rejected \<Rightarrow> Inl (NetworkError, p1)
         | Response r \<Rightarrow>
             if \<not> ok r then Inl (HttpError (status r), p1)
             else
               (case payload r of
                  InvalidJson \<Rightarrow> Inl (SyntaxError, p1)
                | NoCollection \<Rightarrow> Inl (TypeError, p1)
                | Photographers ps \<Rightarrow>
                    (let photographer =
                           find (\<lambda>q. strict_equals (p_id q) (parseInt10 photographerId)) ps
                     in Inr (photographer,
                             console_log [Text ''Fetched photographer details for form:'',
                                          Found photographer] p1))))"

text \<open>
  The function is asynchronous: \<open>Inr\<close> is the value its promise resolves with, \<open>Inl\<close>
  would be a rejection.
\<close>

definition getPhotographerDetails ::
    "jsstring \<Rightarrow> fetched \<Rightarrow> page \<Rightarrow> exception + photographer option \<times> page" where
  "getPhotographerDetails photographerId net p =
     (case try_block photographerId net p of
        Inr res \<Rightarrow> Inr res
      | Inl (error, p') \<Rightarrow>
          Inr (None, console_error [Text ''Failed to fetch photographer details for form:'',
                                    Thrown error] p'))"

definition updateFormHeader :: "jsstring \<Rightarrow> page \<Rightarrow> exception + page" where
  "updateFormHeader name p =
     (case querySelector p ''#contact_modal h2'' of
        None \<Rightarrow> Inl TypeError
      | Some formHeader \<Rightarrow>
          Inr (console_log [Text ''Updated form header with photographer name:'', Str name]
                 (p\<lparr>elements := (elements p)
                       (formHeader := (elements p formHeader)
                          \<lparr>textContent := js ''Contactez-moi '' @ name\<rparr>)\<rparr>)))"

text \<open>
  \<^verbatim>\<open>urlParams.get('id')\<close> is the value of the first pair named \<^verbatim>\<open>id\<close>, or null; null
  and the empty string are the falsy ones.
\<close>

definition initForm :: "fetched \<Rightarrow> page \<Rightarrow> exception + page" where
  "initForm net p =
     (case map_of (search_params p) (js ''id'') of
        None \<Rightarrow> Inr (console_error [Text ''Photographer ID is required for the form.''] p)
      | Some photographerId \<Rightarrow>
          if photographerId = []
          then Inr (console_error [Text ''Photographer ID is required for the form.''] p)
          else
            and_then (getPhotographerDetails photographerId net p) (\<lambda>(photographer, p').
              case photographer of
                Some q \<Rightarrow> updateFormHeader (p_name q) p'
              | None \<Rightarrow>
                  Inr (console_error
                         [Text ''Failed to load photographer details for the form.''] p')))"


section \<open>The vocabulary of the specification\<close>

subsection \<open>Outcome of one check\<close>

text \<open>
  A check run from \<^verbatim>\<open>errors = false\<close> fails when it returns with the flag set and its
  indicator displayed \<^verbatim>\<open>inline\<close>; it passes when it returns with the flag clear and the
  indicator displayed \<^verbatim>\<open>none\<close>.
\<close>

definition check_fails :: "string \<Rightarrow> exception + bool \<times> page \<Rightarrow> bool" where
  "check_fails errorClass res =
     (case res of
        Inl e \<Rightarrow> False
      | Inr (errors, p') \<Rightarrow>
          errors \<and>
          (case querySelector p' errorClass of
             None \<Rightarrow> False
           | Some k \<Rightarrow> style_display (elements p' k) = ''inline''))"

definition check_passes :: "string \<Rightarrow> exception + bool \<times> page \<Rightarrow> bool" where
  "check_passes errorClass res =
     (case res of
        Inl e \<Rightarrow> False
      | Inr (errors, p') \<Rightarrow>
          \<not> errors \<and>
          (case querySelector p' errorClass of
             None \<Rightarrow> False
           | Some k \<Rightarrow> style_display (elements p' k) = ''none''))"

text \<open>
  The page has the four fields and the four indicators the handler queries; the four
  indicators are four elements.
\<close>

definition form_present :: "page \<Rightarrow> bool" where
  "form_present p =
     list_all (\<lambda>selector. querySelector p selector \<noteq> None)
       [''#first'', ''#last'', ''#email'', ''#message'',
        ''.errorFirst'', ''.errorLast'', ''.errorEmail'', ''.errorMessage'']"

definition indicators_distinct :: "page \<Rightarrow> bool" where
  "indicators_distinct p =
     distinct (map (querySelector p)
       [''.errorFirst'', ''.errorLast'', ''.errorEmail'', ''.errorMessage''])"

text \<open>The value the element of a selector holds, and its validity flag, on a page with
  the form.\<close>

definition field_value :: "page \<Rightarrow> string \<Rightarrow> jsstring" where
  "field_value p selector = input_value (elements p (the (querySelector p selector)))"

definition field_valid :: "page \<Rightarrow> string \<Rightarrow> bool" where
  "field_valid p selector = validity_valid (elements p (the (querySelector p selector)))"

text \<open>What an indicator displays, when the page has it.\<close>

definition indicator_display :: "page \<Rightarrow> string \<Rightarrow> string option" where
  "indicator_display p selector =
     map_option (\<lambda>k. style_display (elements p k)) (querySelector p selector)"

text \<open>Every field passes its own rule.\<close>

definition fields_valid :: "page \<Rightarrow> bool" where
  "fields_valid p =
     (\<not> name_invalid (field_value p ''#first'')
      \<and> \<not> name_invalid (field_value p ''#last'')
      \<and> \<not> email_invalid (field_value p ''#email'') (field_valid p ''#email'')
      \<and> \<not> message_invalid (field_value p ''#message''))"

subsection \<open>The profile request\<close>

text \<open>
  The identifier of the page URL (\<^verbatim>\<open>urlParams.get('id')\<close>), the text of the heading, a
  record matching the identifier string, and the two kinds of outcome of the request: it
  fails (network error, status outside 200 to 299, or a body that is not the expected
  JSON), or it answers with a collection of records.
\<close>

definition url_id :: "page \<Rightarrow> jsstring option" where
  "url_id p = map_of (search_params p) (js ''id'')"

definition heading :: "page \<Rightarrow> jsstring option" where
  "heading p =
     map_option (\<lambda>h. textContent (elements p h)) (querySelector p ''#contact_modal h2'')"

definition matches :: "jsstring \<Rightarrow> photographer \<Rightarrow> bool" where
  "matches photographerId q = strict_equals (p_id q) (parseInt10 photographerId)"

definition request_fails :: "fetched \<Rightarrow> bool" where
  "request_fails net =
     (case net of
        Rejected \<Rightarrow> True
      | Response r \<Rightarrow> \<not> ok r \<or> payload r = InvalidJson \<or> payload r = NoCollection)"

definition answers :: "fetched \<Rightarrow> photographer list \<Rightarrow> bool" where
  "answers net ps =
     (case net of
        Rejected \<Rightarrow> False
      | Response r \<Rightarrow> ok r \<and> payload r = Photographers ps)"

subsection \<open>The name pattern and the email pattern, in the words of the specification\<close>

text \<open>
  A name is up to three groups of letters, each further group joined to the one before
  by at most one separator (space, hyphen, apostrophe), with an optional period at the
  end. A letter is a to z, A to Z, or a code unit from C0 up.
\<close>

definition letter :: "char16 \<Rightarrow> bool" where
  "letter c =
     ((0x61 \<le> c \<and> c \<le> 0x7A) \<or> (0x41 \<le> c \<and> c \<le> 0x5A) \<or> (0xC0 \<le> c \<and> c \<le> 0xFFFF))"

definition separator :: "char16 \<Rightarrow> bool" where
  "separator c = (c = 0x20 \<or> c = 0x2D \<or> c = 0x27)"

definition letter_group :: "jsstring \<Rightarrow> bool" where
  "letter_group g = (g \<noteq> [] \<and> list_all letter g)"

definition joiner :: "jsstring \<Rightarrow> bool" where
  "joiner j = (length j \<le> 1 \<and> list_all separator j)"

definition name_pattern :: "jsstring \<Rightarrow> bool" where
  "name_pattern t =
     (\<exists>g rest d.
        letter_group g \<and> length rest \<le> 2 \<and>
        list_all (\<lambda>(j, h). joiner j \<and> letter_group h) rest \<and>
        (d = [] \<or> d = [0x2E]) \<and>
        t = g @ concat (map (\<lambda>(j, h). j @ h) rest) @ d)"

text \<open>
  An email is a local part, an \<^verbatim>\<open>@\<close>, and a domain that is two segments with a dot
  between them; a part or segment is one or more code units that are neither white space
  nor \<^verbatim>\<open>@\<close>.
\<close>

definition email_segment :: "jsstring \<Rightarrow> bool" where
  "email_segment w = (w \<noteq> [] \<and> list_all (\<lambda>c. \<not> white_space c \<and> c \<noteq> 0x40) w)"

definition email_pattern :: "jsstring \<Rightarrow> bool" where
  "email_pattern v =
     (\<exists>l d1 d2.
        email_segment l \<and> email_segment d1 \<and> email_segment d2 \<and>
        v = l @ [0x40] @ d1 @ [0x2E] @ d2)"

subsection \<open>The words a pattern accepts\<close>

definition conc :: "'a list set \<Rightarrow> 'a list set \<Rightarrow> 'a list set" where
  "conc A B = {u @ v | u v. u \<in> A \<and> v \<in> B}"

primrec lpow :: "'a list set \<Rightarrow> nat \<Rightarrow> 'a list set" where
  "lpow L 0 = {[]}"
| "lpow L (Suc k) = conc L (lpow L k)"

definition in_bounds :: "nat \<Rightarrow> nat option \<Rightarrow> nat \<Rightarrow> bool" where
  "in_bounds lo hi k = (lo \<le> k \<and> (case hi of None \<Rightarrow> True | Some h \<Rightarrow> k \<le> h))"

definition iterated :: "'a list set \<Rightarrow> nat \<Rightarrow> nat option \<Rightarrow> 'a list set" where
  "iterated L lo hi = {w. \<exists>k. in_bounds lo hi k \<and> w \<in> lpow L k}"

text \<open>The words a pattern without assertions consumes (an assertion consumes nothing).\<close>

primrec lang :: "regex \<Rightarrow> jsstring set" where
  "lang Bol = {[]}"
| "lang Eol = {[]}"
| "lang (Lit a) = {[a]}"
| "lang (Class negated atoms) = {[c] | c. class_matches negated atoms c}"
| "lang (Seq a b) = conc (lang a) (lang b)"
| "lang (Quant a lo hi) = iterated (lang a) lo hi"

text \<open>
  \<open>plain\<close>: no assertion inside, the bounds of each quantifier in order, and no quantified
  pattern that accepts the empty word. \<open>closing\<close>: plain patterns in sequence, closed by
  \<^verbatim>\<open>$\<close>.
\<close>

primrec plain :: "regex \<Rightarrow> bool" where
  "plain Bol = False"
| "plain Eol = False"
| "plain (Lit a) = True"
| "plain (Class negated atoms) = True"
| "plain (Seq a b) = (plain a \<and> plain b)"
| "plain (Quant a lo hi) =
     (plain a \<and> [] \<notin> lang a \<and> (case hi of None \<Rightarrow> True | Some h \<Rightarrow> lo \<le> h))"

primrec closing :: "regex \<Rightarrow> bool" where
  "closing Bol = False"
| "closing Eol = True"
| "closing (Lit a) = False"
| "closing (Class negated atoms) = False"
| "closing (Seq a b) = (plain a \<and> closing b)"
| "closing (Quant a lo hi) = False"

text \<open>The states reached from \<open>x\<close> by consuming a word of \<open>L\<close>.\<close>

definition ends :: "mstate \<Rightarrow> jsstring set \<Rightarrow> mstate set" where
  "ends x L = {(fst x + length w, rest) | w rest. snd x = w @ rest \<and> w \<in> L}"

definition joined :: "(jsstring \<times> jsstring) list \<Rightarrow> jsstring" where
  "joined rest = concat (map (\<lambda>(j, h). j @ h) rest)"

definition names_tail :: regex where
  "names_tail =
     Seq letters
    (Seq (Quant (Seq (Quant (Class False [Single 0x20, Single 0x2D, Single 0x27]) 0 (Some 1))
                     letters) 0 (Some 2))
    (Seq (Quant (Class False [Single 0x2E]) 0 (Some 1))
         Eol))"

definition email_tail :: regex where
  "email_tail = Seq segment (Seq (Lit 0x40) (Seq segment (Seq (Lit 0x2E) (Seq segment Eol))))"

subsection \<open>Example pages and responses\<close>

text \<open>The page after a check: the indicator shown or hidden.\<close>

definition indicate :: "node \<Rightarrow> bool \<Rightarrow> page \<Rightarrow> page" where
  "indicate k failed p =
     p\<lparr>elements := (elements p)
          (k := (elements p k)\<lparr>style_display := (if failed then ''inline'' else ''none'')\<rparr>)\<rparr>"

text \<open>
  A page with the form, every indicator showing, the heading, and the query string
  \<^verbatim>\<open>?id=7\<close>; the four values (first name, last name, email, message) and the validity
  of the email field are given.
\<close>

definition form_page :: "jsstring \<Rightarrow> jsstring \<Rightarrow> jsstring \<Rightarrow> bool \<Rightarrow> jsstring \<Rightarrow> page" where
  "form_page v1 v2 v3 valid v4 =
     \<lparr>querySelector = map_of
        [(''#first'', 0), (''#last'', 1), (''#email'', 2), (''#message'', 3),
         (''.errorFirst'', 4), (''.errorLast'', 5), (''.errorEmail'', 6),
         (''.errorMessage'', 7), (''#contact_modal h2'', 8)],
      elements = (\<lambda>n.
        \<lparr>input_value = (if n = 0 then v1 else if n = 1 then v2
                         else if n = 2 then v3 else if n = 3 then v4 else []),
         validity_valid = (n = 2 \<longrightarrow> valid),
         style_display = (if 4 \<le> n \<and> n \<le> 7 then ''inline'' else ''block''),
         textContent = (if n = 8 then js ''Contactez-moi'' else [])\<rparr>),
      search_params = [(js ''id'', js ''7'')],
      console = [],
      requests = [],
      defaultPrevented = False,
      closeModal_calls = 0\<rparr>"

definition OBrien :: jsstring where
  "OBrien = js ''O'' @ [0x27] @ js ''Brien''"

definition Mueller :: jsstring where
  "Mueller = js ''M'' @ [0xFC] @ js ''ller''"

definition good_page :: page where
  "good_page = form_page (js ''Jean-Paul'') OBrien (js ''a@b.co'') True (js ''Hello'')"

definition bad_page :: page where
  "bad_page = form_page (js ''Jean-Paul'') (js ''John123'') (js ''a@b.co'') True (js ''Hello'')"

text \<open>The email after a space; a message of two spaces.\<close>

definition spaced_page :: page where
  "spaced_page = form_page (js ''Jean-Paul'') OBrien (js '' a@b.co'') True (js ''Hello'')"

definition blank_page :: page where
  "blank_page = form_page (js ''Jean-Paul'') OBrien (js ''a@b.co'') True (js ''  '')"

definition two_records :: "photographer list" where
  "two_records =
     [\<lparr>p_id = Finite 243, p_name = js ''Mimi Keel''\<rparr>,
      \<lparr>p_id = Finite 7, p_name = js ''Ellie-Rose Wilkens''\<rparr>]"

definition no_id_page :: page where
  "no_id_page = good_page\<lparr>search_params := [(js ''page'', js ''2'')]\<rparr>"

text \<open>
  The query string \<^verbatim>\<open>?id=-7abc\<close>, and an answer with the identifiers 7 and -7, in this
  order.
\<close>

definition signed_page :: page where
  "signed_page = good_page\<lparr>search_params := [(js ''id'', js ''-7abc'')]\<rparr>"

definition signed_records :: "photographer list" where
  "signed_records =
     [\<lparr>p_id = Finite 7, p_name = js ''Ellie-Rose Wilkens''\<rparr>,
      \<lparr>p_id = Finite (- 7), p_name = js ''Tracy Galindo''\<rparr>]"

definition signed_response :: fetched where
  "signed_response = Response \<lparr>status = 200, payload = Photographers signed_records\<rparr>"

definition not_found_response :: fetched where
  "not_found_response = Response \<lparr>status = 404, payload = InvalidJson\<rparr>"

definition found_response :: fetched where
  "found_response = Response \<lparr>status = 200, payload = Photographers two_records\<rparr>"


section \<open>The matcher accepts the words of the pattern\<close>

lemma ends_empty_word: "ends x {[]} = {x}"
  by (auto simp: ends_def)

lemma ends_empty: "ends x {} = {}"
  by (simp add: ends_def)

lemma ends_Un: "ends x (A \<union> B) = ends x A \<union> ends x B"
  by (auto simp: ends_def)

lemma ends_conc: "(\<Union>y \<in> ends x A. ends y B) = ends x (conc A B)"
proof (rule set_eqI, rule iffI)
  fix z assume "z \<in> (\<Union>y \<in> ends x A. ends y B)"
  then obtain u r v r' where "snd x = u @ r" "u \<in> A" "r = v @ r'" "v \<in> B"
      "z = (fst x + length u + length v, r')"
    by (auto simp: ends_def)
  then have "snd x = (u @ v) @ r'" "u @ v \<in> conc A B" "z = (fst x + length (u @ v), r')"
    by (auto simp: conc_def)
  then show "z \<in> ends x (conc A B)"
    unfolding ends_def by blast
next
  fix z assume "z \<in> ends x (conc A B)"
  then obtain u v r' where *: "snd x = (u @ v) @ r'" "u \<in> A" "v \<in> B"
      "z = (fst x + length (u @ v), r')"
    by (auto simp: ends_def conc_def)
  let ?y = "(fst x + length u, v @ r')"
  have "?y \<in> ends x A" using * by (auto simp: ends_def)
  moreover have "z \<in> ends ?y B" using * by (auto simp: ends_def)
  ultimately show "z \<in> (\<Union>y \<in> ends x A. ends y B)" by blast
qed

lemma ends_shorter:
  assumes "y \<in> ends x L" "[] \<notin> L"
  shows "length (snd y) < length (snd x)"
proof -
  from assms obtain w rest where "snd x = w @ rest" "w \<in> L" "y = (fst x + length w, rest)"
    by (auto simp: ends_def)
  with assms(2) show ?thesis by (cases w) auto
qed

lemma iterated_stop: "iterated L 0 (Some 0) = {[]}"
  by (auto simp: iterated_def in_bounds_def)

lemma iterated_step:
  assumes "hi \<noteq> Some 0"
  shows "iterated L lo hi =
           conc L (iterated L (lo - 1) (map_option (\<lambda>h. h - 1) hi))
           \<union> (if lo = 0 then {[]} else {})"
proof (rule set_eqI, rule iffI)
  fix w assume "w \<in> iterated L lo hi"
  then obtain k where k: "in_bounds lo hi k" "w \<in> lpow L k"
    by (auto simp: iterated_def)
  show "w \<in> conc L (iterated L (lo - 1) (map_option (\<lambda>h. h - 1) hi))
             \<union> (if lo = 0 then {[]} else {})"
  proof (cases k)
    case 0
    with k show ?thesis by (simp add: in_bounds_def)
  next
    case (Suc j)
    with k obtain u v where uv: "w = u @ v" "u \<in> L" "v \<in> lpow L j"
      by (auto simp: conc_def)
    have "in_bounds (lo - 1) (map_option (\<lambda>h. h - 1) hi) j"
      using k(1) Suc by (auto simp: in_bounds_def split: option.splits)
    with uv have "v \<in> iterated L (lo - 1) (map_option (\<lambda>h. h - 1) hi)"
      by (auto simp: iterated_def)
    with uv show ?thesis by (auto simp: conc_def)
  qed
next
  fix w assume "w \<in> conc L (iterated L (lo - 1) (map_option (\<lambda>h. h - 1) hi))
             \<union> (if lo = 0 then {[]} else {})"
  then consider (more) "w \<in> conc L (iterated L (lo - 1) (map_option (\<lambda>h. h - 1) hi))"
    | (stop) "lo = 0" "w = []"
    by (auto split: if_splits)
  then show "w \<in> iterated L lo hi"
  proof cases
    case more
    then obtain u v j where uv: "w = u @ v" "u \<in> L" "v \<in> lpow L j"
        "in_bounds (lo - 1) (map_option (\<lambda>h. h - 1) hi) j"
      by (auto simp: conc_def iterated_def)
    have "in_bounds lo hi (Suc j)"
      using uv(4) assms by (auto simp: in_bounds_def split: option.splits)
    moreover have "w \<in> lpow L (Suc j)" using uv by (auto simp: conc_def)
    ultimately show ?thesis unfolding iterated_def by blast
  next
    case stop
    have "in_bounds lo hi 0" using stop assms by (auto simp: in_bounds_def split: option.splits)
    moreover have "w \<in> lpow L 0" using stop by simp
    ultimately show ?thesis unfolding iterated_def by blast
  qed
qed

lemma repeat_ends:
  "(\<And>y. set (m y) = ends y L) \<Longrightarrow> [] \<notin> L \<Longrightarrow>
   (case hi of None \<Rightarrow> True | Some h \<Rightarrow> lo \<le> h) \<Longrightarrow>
   set (repeat m lo hi x) = ends x (iterated L lo hi)"
proof (induction m lo hi x rule: repeat.induct)
  case (1 m lo hi x)
  note step = "1.prems"(1) and ne = "1.prems"(2) and bounds = "1.prems"(3)
  show ?case
  proof (cases "hi = Some 0")
    case True
    with bounds have "lo = 0" by simp
    with True show ?thesis
      by (simp add: repeat.simps iterated_stop ends_empty_word)
  next
    case False
    let ?lo = "lo - 1" and ?hi = "map_option (\<lambda>h. h - 1) hi"
    have ord: "case ?hi of None \<Rightarrow> True | Some h \<Rightarrow> ?lo \<le> h"
      using bounds by (auto split: option.splits)
    have prog: "length (snd y) < length (snd x)" if "y \<in> set (m x)" for y
    proof -
      from that have "y \<in> ends x L" by (simp add: step)
      then show ?thesis using ne by (rule ends_shorter)
    qed
    have each: "set (repeat m ?lo ?hi y) = ends y (iterated L ?lo ?hi)"
      if "y \<in> set (m x)" for y
      using "1.IH" [of y] False ord prog [OF that] step ne by simp
    have "set (repeat m lo hi x) =
            (\<Union>y \<in> set (m x). set (repeat m ?lo ?hi y)) \<union> (if lo = 0 then {x} else {})"
      using False prog by (subst repeat.simps) (auto simp: Let_def)
    also have "(\<Union>y \<in> set (m x). set (repeat m ?lo ?hi y)) =
                 (\<Union>y \<in> ends x L. ends y (iterated L ?lo ?hi))"
      using each step by auto
    also have "\<dots> = ends x (conc L (iterated L ?lo ?hi))"
      by (rule ends_conc)
    finally show ?thesis
      by (simp add: iterated_step [OF False] ends_Un ends_empty_word ends_empty)
  qed
qed


lemma one_unit_ends: "set (one_unit p x) = ends x {[c] | c. p c}"
proof (cases "snd x")
  case Nil
  then show ?thesis by (auto simp: one_unit_def ends_def)
next
  case (Cons c cs)
  have "ends x {[c] | c. p c} = (if p c then {(Suc (fst x), cs)} else {})"
  proof (rule set_eqI, rule iffI)
    fix z assume "z \<in> ends x {[c] | c. p c}"
    then obtain d rest where "snd x = [d] @ rest" "p d" "z = (fst x + length [d], rest)"
      unfolding ends_def by blast
    with Cons show "z \<in> (if p c then {(Suc (fst x), cs)} else {})" by simp
  next
    fix z assume "z \<in> (if p c then {(Suc (fst x), cs)} else {})"
    then have "p c" "z = (fst x + length [c], cs)" by (simp_all split: if_splits)
    moreover have "snd x = [c] @ cs" using Cons by simp
    ultimately show "z \<in> ends x {[c] | c. p c}"
      unfolding ends_def by blast
  qed
  moreover have "set (one_unit p x) = (if p c then {(Suc (fst x), cs)} else {})"
    using Cons by (cases "p c") (simp_all add: one_unit_def)
  ultimately show ?thesis by (rule ssubst)
qed

lemma matcher_ends: "plain r \<Longrightarrow> set (matcher r x) = ends x (lang r)"
proof (induction r arbitrary: x)
  case (Lit a)
  have "{[c] | c. c = a} = {[a]}" by auto
  then show ?case using one_unit_ends [of "\<lambda>c. c = a" x] by simp
next
  case (Class negated atoms)
  show ?case using one_unit_ends [of "class_matches negated atoms" x] by simp
next
  case (Seq a b)
  then have a: "\<And>y. set (matcher a y) = ends y (lang a)"
    and b: "\<And>y. set (matcher b y) = ends y (lang b)"
    by simp_all
  have "set (matcher (Seq a b) x) = (\<Union>y \<in> ends x (lang a). ends y (lang b))"
    by (simp add: a b)
  then show ?case by (simp add: ends_conc)
next
  case (Quant a lo hi)
  then have a: "\<And>y. set (matcher a y) = ends y (lang a)"
    and ne: "[] \<notin> lang a"
    and bounds: "case hi of None \<Rightarrow> True | Some h \<Rightarrow> lo \<le> h"
    by simp_all
  show ?case using repeat_ends [OF a ne bounds] by simp
qed simp_all

lemma closing_matcher:
  "closing r \<Longrightarrow>
   set (matcher r x) = (if snd x \<in> lang r then {(fst x + length (snd x), [])} else {})"
proof (induction r arbitrary: x)
  case Eol
  show ?case by (cases x) auto
next
  case (Seq a b)
  then have a: "\<And>y. set (matcher a y) = ends y (lang a)"
    and b: "\<And>y. set (matcher b y) =
              (if snd y \<in> lang b then {(fst y + length (snd y), [])} else {})"
    by (simp_all add: matcher_ends)
  have "set (matcher (Seq a b) x) =
          (\<Union>y \<in> ends x (lang a). if snd y \<in> lang b then {(fst y + length (snd y), [])} else {})"
    by (simp add: a b)
  also have "\<dots> = (if snd x \<in> conc (lang a) (lang b) then {(fst x + length (snd x), [])} else {})"
  proof (cases "snd x \<in> conc (lang a) (lang b)")
    case True
    then obtain u v where uv: "snd x = u @ v" "u \<in> lang a" "v \<in> lang b"
      by (auto simp: conc_def)
    then have "(fst x + length u, v) \<in> ends x (lang a)"
      by (auto simp: ends_def)
    moreover have "fst x + length u + length v = fst x + length (snd x)"
      using uv by simp
    moreover have "fst y + length (snd y) = fst x + length (snd x)" if "y \<in> ends x (lang a)" for y
      using that by (auto simp: ends_def)
    ultimately show ?thesis using True uv(3) by (auto split: if_splits)
  next
    case False
    have "snd y \<notin> lang b" if "y \<in> ends x (lang a)" for y
      using that False by (auto simp: ends_def conc_def)
    then show ?thesis using False by auto
  qed
  finally show ?case by simp
qed simp_all

lemma scan_Bol_later: "scan (Seq Bol r) (Suc i) s = False"
  by (induction s arbitrary: i) simp_all

lemma test_anchored:
  assumes "closing r"
  shows "test (Seq Bol r) s \<longleftrightarrow> s \<in> lang r"
proof -
  have "test (Seq Bol r) s \<longleftrightarrow> matcher r (0, s) \<noteq> []"
    unfolding test_def by (cases s) (simp_all add: scan_Bol_later)
  also have "\<dots> \<longleftrightarrow> set (matcher r (0, s)) \<noteq> {}"
    by simp
  also have "\<dots> \<longleftrightarrow> s \<in> lang r"
    by (simp only: closing_matcher [OF assms]) simp
  finally show ?thesis .
qed


lemma lpow_units: "lpow {[c] | c. P c} k = {w. length w = k \<and> list_all P w}"
proof (induction k)
  case 0
  show ?case by auto
next
  case (Suc k)
  show ?case
  proof (rule set_eqI, rule iffI)
    fix w assume "w \<in> lpow {[c] | c. P c} (Suc k)"
    then obtain c v where "w = [c] @ v" "P c" "v \<in> lpow {[c] | c. P c} k"
      by (auto simp: conc_def)
    with Suc show "w \<in> {w. length w = Suc k \<and> list_all P w}" by simp
  next
    fix w assume "w \<in> {w. length w = Suc k \<and> list_all P w}"
    then obtain c v where w: "w = c # v" "P c" "length v = k" "list_all P v"
      by (cases w) auto
    then have "v \<in> lpow {[c] | c. P c} k" using Suc by simp
    moreover have "[c] \<in> {[c] | c. P c}" using w by blast
    moreover have "w = [c] @ v" using w by simp
    ultimately show "w \<in> lpow {[c] | c. P c} (Suc k)"
      unfolding lpow.simps conc_def by blast
  qed
qed

lemma iterated_units_plus:
  "iterated {[c] | c. P c} (Suc 0) None = {w. w \<noteq> [] \<and> list_all P w}"
proof -
  have "(\<exists>k. Suc 0 \<le> k \<and> length w = k) \<longleftrightarrow> w \<noteq> []" for w :: "'a list"
    by (cases w) auto
  then show ?thesis
    by (simp add: iterated_def in_bounds_def lpow_units)
qed

lemma conc_empty_word: "conc L {[]} = L"
  by (auto simp: conc_def)

lemma iterated_optional: "iterated L 0 (Some (Suc 0)) = {[]} \<union> L"
proof (rule set_eqI, rule iffI)
  fix w assume "w \<in> iterated L 0 (Some (Suc 0))"
  then obtain k where k: "k \<le> Suc 0" "w \<in> lpow L k"
    by (auto simp: iterated_def in_bounds_def)
  then have "k = 0 \<or> k = Suc 0" by arith
  with k(2) show "w \<in> {[]} \<union> L"
    by (auto simp: conc_empty_word)
next
  fix w assume "w \<in> {[]} \<union> L"
  then have "w \<in> lpow L 0 \<or> w \<in> lpow L (Suc 0)"
    by (auto simp: conc_empty_word)
  moreover have "in_bounds 0 (Some (Suc 0)) 0" "in_bounds 0 (Some (Suc 0)) (Suc 0)"
    by (simp_all add: in_bounds_def)
  ultimately show "w \<in> iterated L 0 (Some (Suc 0))"
    unfolding iterated_def by blast
qed

lemma lpow_concat: "lpow L k = {concat ws | ws. length ws = k \<and> set ws \<subseteq> L}"
proof (induction k)
  case 0
  show ?case by auto
next
  case (Suc k)
  show ?case
  proof (rule set_eqI, rule iffI)
    fix w assume "w \<in> lpow L (Suc k)"
    then obtain u ws where "w = u @ concat ws" "u \<in> L" "length ws = k" "set ws \<subseteq> L"
      using Suc by (auto simp: conc_def)
    then have "w = concat (u # ws)" "length (u # ws) = Suc k" "set (u # ws) \<subseteq> L"
      by simp_all
    then show "w \<in> {concat ws | ws. length ws = Suc k \<and> set ws \<subseteq> L}" by blast
  next
    fix w assume "w \<in> {concat ws | ws. length ws = Suc k \<and> set ws \<subseteq> L}"
    then obtain ws where ws: "w = concat ws" "length ws = Suc k" "set ws \<subseteq> L" by blast
    then obtain u vs where "ws = u # vs" by (cases ws) auto
    with ws have "w = u @ concat vs" "u \<in> L" "concat vs \<in> lpow L k"
      using Suc by auto
    then show "w \<in> lpow L (Suc k)"
      unfolding lpow.simps conc_def by blast
  qed
qed

lemma iterated_upto:
  "iterated L 0 (Some n) = {concat ws | ws. length ws \<le> n \<and> set ws \<subseteq> L}"
  by (auto simp: iterated_def in_bounds_def lpow_concat)

lemma words_of_pairs:
  "set ws \<subseteq> conc J G \<Longrightarrow>
   \<exists>rest. ws = map (\<lambda>(j, h). j @ h) rest \<and> list_all (\<lambda>(j, h). j \<in> J \<and> h \<in> G) rest"
proof (induction ws)
  case Nil
  show ?case by simp
next
  case (Cons w ws)
  then obtain rest where rest: "ws = map (\<lambda>(j, h). j @ h) rest"
      "list_all (\<lambda>(j, h). j \<in> J \<and> h \<in> G) rest"
    by auto
  from Cons.prems obtain j h where "w = j @ h" "j \<in> J" "h \<in> G"
    by (auto simp: conc_def)
  with rest have "w # ws = map (\<lambda>(j, h). j @ h) ((j, h) # rest)"
      "list_all (\<lambda>(j, h). j \<in> J \<and> h \<in> G) ((j, h) # rest)"
    by simp_all
  then show ?case by (intro exI [of _ "(j, h) # rest"] conjI)
qed

lemma pairs_words:
  "list_all (\<lambda>(j, h). j \<in> J \<and> h \<in> G) rest \<Longrightarrow> set (map (\<lambda>(j, h). j @ h) rest) \<subseteq> conc J G"
  by (induction rest) (auto simp: conc_def)

lemma letter_class [simp]:
  "class_matches False [Range 0x61 0x7A, Range 0x41 0x5A, Range 0xC0 0xFFFF] c = letter c"
  by (simp add: class_matches_def letter_def)

lemma separator_class [simp]:
  "class_matches False [Single 0x20, Single 0x2D, Single 0x27] c = separator c"
  by (simp add: class_matches_def separator_def)

lemma period_class [simp]: "class_matches False [Single 0x2E] c = (c = 0x2E)"
  by (simp add: class_matches_def)

lemma segment_class [simp]:
  "class_matches True [EscapeS, Single 0x40] c = (\<not> white_space c \<and> c \<noteq> 0x40)"
  by (auto simp: class_matches_def)

lemma lang_letters: "lang letters = {g. letter_group g}"
  by (simp add: letters_def iterated_units_plus letter_group_def)

lemma lang_segment: "lang segment = {w. email_segment w}"
  by (simp add: segment_def iterated_units_plus email_segment_def)

lemma plain_letters: "plain letters" "[] \<notin> lang letters"
  by (simp_all add: lang_letters letter_group_def) (simp add: letters_def)

lemma plain_segment: "plain segment" "[] \<notin> lang segment"
  by (simp_all add: lang_segment email_segment_def) (simp add: segment_def)

lemma joiners: "insert [] {[c] | c. separator c} = {j. joiner j}"
proof (rule set_eqI, rule iffI)
  fix j assume "j \<in> insert [] {[c] | c. separator c}"
  then show "j \<in> {j. joiner j}" by (auto simp: joiner_def)
next
  fix j assume "j \<in> {j. joiner j}"
  then have "length j \<le> 1" "list_all separator j" by (simp_all add: joiner_def)
  then show "j \<in> insert [] {[c] | c. separator c}"
    by (cases j) auto
qed


lemma lang_optional_separator:
  "lang (Quant (Class False [Single 0x20, Single 0x2D, Single 0x27]) 0 (Some 1)) = {j. joiner j}"
  using iterated_optional [of "{[c] | c. separator c}"] by (simp add: joiners)

lemma lang_optional_period:
  "lang (Quant (Class False [Single 0x2E]) 0 (Some 1)) = {d. d = [] \<or> d = [0x2E]}"
  using iterated_optional [of "{[c] | c. c = (0x2E :: char16)}"] by auto

lemma lang_more_groups:
  "lang (Quant (Seq (Quant (Class False [Single 0x20, Single 0x2D, Single 0x27]) 0 (Some 1))
                    letters) 0 (Some 2))
   = {joined rest | rest.
        length rest \<le> 2 \<and> list_all (\<lambda>(j, h). joiner j \<and> letter_group h) rest}"
    (is "?L = ?R")
proof -
  let ?M = "conc {j. joiner j} {g. letter_group g}"
  have L: "?L = {concat ws | ws. length ws \<le> 2 \<and> set ws \<subseteq> ?M}"
    unfolding lang.simps lang_optional_separator [unfolded lang.simps] lang_letters
    by (rule iterated_upto)
  show ?thesis
  proof (rule set_eqI, rule iffI)
    fix w assume "w \<in> ?L"
    then obtain ws where ws: "w = concat ws" "length ws \<le> 2" "set ws \<subseteq> ?M"
      unfolding L by blast
    from words_of_pairs [OF ws(3)] obtain rest where
      rest: "ws = map (\<lambda>(j, h). j @ h) rest"
        "list_all (\<lambda>(j, h). j \<in> {j. joiner j} \<and> h \<in> {g. letter_group g}) rest"
      by blast
    have "w = joined rest" "length rest \<le> 2"
      using ws rest by (simp_all add: joined_def)
    moreover have "list_all (\<lambda>(j, h). joiner j \<and> letter_group h) rest"
      using rest(2) by simp
    ultimately show "w \<in> ?R" by blast
  next
    fix w assume "w \<in> ?R"
    then obtain rest where rest: "w = joined rest" "length rest \<le> 2"
        "list_all (\<lambda>(j, h). joiner j \<and> letter_group h) rest"
      by blast
    then have "list_all (\<lambda>(j, h). j \<in> {j. joiner j} \<and> h \<in> {g. letter_group g}) rest"
      by simp
    from pairs_words [OF this] have "set (map (\<lambda>(j, h). j @ h) rest) \<subseteq> ?M" .
    moreover have "w = concat (map (\<lambda>(j, h). j @ h) rest)"
        "length (map (\<lambda>(j, h). j @ h) rest) \<le> 2"
      using rest by (simp_all add: joined_def)
    ultimately show "w \<in> ?L" unfolding L by blast
  qed
qed

lemma nonempty_group: "[] \<notin> conc J {g. letter_group g}"
  by (auto simp: conc_def letter_group_def)

lemma closing_names: "closing names_tail"
  unfolding names_tail_def
  by (simp add: plain_letters lang_letters lang_optional_separator [unfolded lang.simps]
      nonempty_group)

lemma lang_names: "t \<in> lang names_tail \<longleftrightarrow> name_pattern t"
proof
  assume "t \<in> lang names_tail"
  then obtain g m d e where t: "t = g @ m @ d @ e" "g \<in> lang letters"
      "m \<in> lang (Quant (Seq (Quant (Class False [Single 0x20, Single 0x2D, Single 0x27]) 0 (Some 1))
                     letters) 0 (Some 2))"
      "d \<in> lang (Quant (Class False [Single 0x2E]) 0 (Some 1))" "e \<in> lang Eol"
    unfolding names_tail_def lang.simps(5) conc_def by blast
  from t(3) obtain rest where rest: "m = joined rest" "length rest \<le> 2"
      "list_all (\<lambda>(j, h). joiner j \<and> letter_group h) rest"
    unfolding lang_more_groups by blast
  have "letter_group g" using t(2) by (simp add: lang_letters)
  moreover have "d = [] \<or> d = [0x2E]" using t(4) unfolding lang_optional_period by simp
  moreover have "t = g @ concat (map (\<lambda>(j, h). j @ h) rest) @ d"
    using t(1,5) rest(1) by (simp add: joined_def)
  ultimately show "name_pattern t"
    unfolding name_pattern_def using rest(2,3) by blast
next
  assume "name_pattern t"
  then obtain g rest d where *: "letter_group g" "length rest \<le> 2"
      "list_all (\<lambda>(j, h). joiner j \<and> letter_group h) rest" "d = [] \<or> d = [0x2E]"
      "t = g @ concat (map (\<lambda>(j, h). j @ h) rest) @ d"
    unfolding name_pattern_def by blast
  have "g \<in> lang letters" using * by (simp add: lang_letters)
  moreover have "joined rest \<in> lang (Quant (Seq (Quant (Class False [Single 0x20, Single 0x2D, Single 0x27]) 0 (Some 1))
                     letters) 0 (Some 2))"
    unfolding lang_more_groups using *(2,3) by blast
  moreover have "d \<in> lang (Quant (Class False [Single 0x2E]) 0 (Some 1))"
    unfolding lang_optional_period using *(4) by simp
  moreover have "[] \<in> lang Eol" by simp
  moreover have "t = g @ joined rest @ d @ []" using *(5) by (simp add: joined_def)
  ultimately show "t \<in> lang names_tail"
    unfolding names_tail_def lang.simps(5) conc_def by blast
qed

lemma test_regexNames: "test regexNames t \<longleftrightarrow> name_pattern t"
proof -
  have "regexNames = Seq Bol names_tail"
    by (simp add: regexNames_def names_tail_def)
  then show ?thesis
    using test_anchored [OF closing_names] lang_names by simp
qed


lemma closing_email: "closing email_tail"
  unfolding email_tail_def by (simp add: plain_segment)

lemma concI: "u \<in> A \<Longrightarrow> v \<in> B \<Longrightarrow> u @ v \<in> conc A B"
  unfolding conc_def by blast

lemma concE: "w \<in> conc A B \<Longrightarrow> (\<And>u v. w = u @ v \<Longrightarrow> u \<in> A \<Longrightarrow> v \<in> B \<Longrightarrow> P) \<Longrightarrow> P"
  unfolding conc_def by blast

lemma lang_email_tail:
  "lang email_tail =
     conc (lang segment) (conc {[0x40]} (conc (lang segment) (conc {[0x2E]} (lang segment))))"
  by (simp add: email_tail_def conc_empty_word)

lemma lang_email: "v \<in> lang email_tail \<longleftrightarrow> email_pattern v"
proof
  assume "v \<in> lang email_tail"
  then have "v \<in> conc (lang segment) (conc {[0x40]} (conc (lang segment)
               (conc {[0x2E]} (lang segment))))"
    by (simp only: lang_email_tail)
  then obtain l r1 where 1: "v = l @ r1" "l \<in> lang segment"
      "r1 \<in> conc {[0x40]} (conc (lang segment) (conc {[0x2E]} (lang segment)))"
    by (rule concE)
  from 1(3) obtain a r2 where 2: "r1 = a @ r2" "a \<in> {[0x40]}"
      "r2 \<in> conc (lang segment) (conc {[0x2E]} (lang segment))"
    by (rule concE)
  from 2(3) obtain d1 r3 where 3: "r2 = d1 @ r3" "d1 \<in> lang segment"
      "r3 \<in> conc {[0x2E]} (lang segment)"
    by (rule concE)
  from 3(3) obtain b d2 where 4: "r3 = b @ d2" "b \<in> {[0x2E]}" "d2 \<in> lang segment"
    by (rule concE)
  have "email_segment l" "email_segment d1" "email_segment d2"
    using 1(2) 3(2) 4(3) by (simp_all add: lang_segment)
  moreover have "v = l @ [0x40] @ d1 @ [0x2E] @ d2"
    using 1(1) 2(1,2) 3(1) 4(1,2) by simp
  ultimately show "email_pattern v" unfolding email_pattern_def by blast
next
  assume "email_pattern v"
  then obtain l d1 d2 where *: "email_segment l" "email_segment d1" "email_segment d2"
      "v = l @ [0x40] @ d1 @ [0x2E] @ d2"
    unfolding email_pattern_def by blast
  have s: "l \<in> lang segment" "d1 \<in> lang segment" "d2 \<in> lang segment"
    using * by (simp_all add: lang_segment)
  have "[0x2E] @ d2 \<in> conc {[0x2E]} (lang segment)"
    by (rule concI) (simp_all add: s)
  then have "d1 @ [0x2E] @ d2 \<in> conc (lang segment) (conc {[0x2E]} (lang segment))"
    by (rule concI [OF s(2)])
  then have "[0x40] @ d1 @ [0x2E] @ d2
      \<in> conc {[0x40]} (conc (lang segment) (conc {[0x2E]} (lang segment)))"
    by (rule concI [OF singletonI])
  then have "l @ [0x40] @ d1 @ [0x2E] @ d2
      \<in> conc (lang segment) (conc {[0x40]} (conc (lang segment)
               (conc {[0x2E]} (lang segment))))"
    by (rule concI [OF s(1)])
  then show "v \<in> lang email_tail"
    by (simp only: lang_email_tail *(4))
qed

lemma test_regexEmail: "test regexEmail v \<longleftrightarrow> email_pattern v"
proof -
  have "regexEmail = Seq Bol email_tail"
    by (simp add: regexEmail_def email_tail_def)
  then show ?thesis
    using test_anchored [OF closing_email] lang_email by simp
qed

section \<open>One check on the page\<close>

lemma and_then_Inr [simp]: "and_then (Inr a) next_step = next_step a"
  unfolding and_then_def by simp

lemma and_then_Inl [simp]: "and_then (Inl thrown) next_step = Inl thrown"
  unfolding and_then_def by simp

lemma value_of_Some [simp]: "value_of (Some n) p = Inr (input_value (elements p n))"
  by (simp add: value_of_def)

lemma valid_of_Some [simp]: "valid_of (Some n) p = Inr (validity_valid (elements p n))"
  by (simp add: valid_of_def)

lemma set_display_Some:
  "querySelector p ec = Some k \<Longrightarrow>
   set_display ec ''inline'' p = Inr (indicate k True p) \<and>
   set_display ec ''none'' p = Inr (indicate k False p)"
  by (simp add: set_display_def indicate_def)

lemma input_value_indicate [simp]:
  "input_value (elements (indicate k b p) n) = input_value (elements p n)"
  by (simp add: indicate_def)

lemma validity_indicate [simp]:
  "validity_valid (elements (indicate k b p) n) = validity_valid (elements p n)"
  by (simp add: indicate_def)

lemma querySelector_indicate [simp]: "querySelector (indicate k b p) = querySelector p"
  by (simp add: indicate_def)

lemma querySelector_console_log [simp]: "querySelector (console_log a p) = querySelector p"
  by (simp add: console_log_def)

lemma elements_console_log [simp]: "elements (console_log a p) = elements p"
  by (simp add: console_log_def)

lemma validateName_run:
  assumes "querySelector p ec = Some k"
  shows "validateName (Some n) ec (errors, p) =
           Inr (errors \<or> name_invalid (input_value (elements p n)),
                console_log [Str (input_value (elements p n))]
                  (indicate k (name_invalid (input_value (elements p n))) p))"
  using set_display_Some [OF assms] by (simp add: validateName_def)

lemma validateEmail_run:
  assumes "querySelector p ''.errorEmail'' = Some k"
  shows "validateEmail (Some n) (errors, p) =
           Inr (errors \<or> email_invalid (input_value (elements p n)) (validity_valid (elements p n)),
                console_log [Str (input_value (elements p n))]
                  (indicate k (email_invalid (input_value (elements p n))
                                 (validity_valid (elements p n))) p))"
  using set_display_Some [OF assms] by (simp add: validateEmail_def)

lemma validateMessage_run:
  assumes "querySelector p ''.errorMessage'' = Some k"
  shows "validateMessage (Some n) (errors, p) =
           Inr (errors \<or> message_invalid (input_value (elements p n)),
                console_log [Str (input_value (elements p n))]
                  (indicate k (message_invalid (input_value (elements p n))) p))"
  using set_display_Some [OF assms] by (simp add: validateMessage_def)

lemma length_trim_le: "length (trim s) \<le> length s"
proof -
  have "length (trim s) \<le> length (dropWhile white_space s)"
    unfolding trim_def
    using length_dropWhile_le [of white_space "rev (dropWhile white_space s)"] by simp
  also have "\<dots> \<le> length s" by (rule length_dropWhile_le)
  finally show ?thesis .
qed

section \<open>The three rules\<close>

lemma check_outcome:
  assumes "querySelector p ec = Some k"
  shows "check_fails ec (Inr (b, console_log a (indicate k b p))) = b"
    and "check_passes ec (Inr (b, console_log a (indicate k b p))) = (\<not> b)"
  using assms by (simp_all add: check_fails_def check_passes_def indicate_def)

lemma name_invalid_pattern:
  "name_invalid v \<longleftrightarrow> length (trim v) < 2 \<or> \<not> name_pattern (trim v)"
  by (simp add: name_invalid_def test_regexNames)

lemma email_invalid_pattern:
  "email_invalid v valid \<longleftrightarrow> length (trim v) < 2 \<or> \<not> valid \<or> \<not> email_pattern v"
  by (simp add: email_invalid_def test_regexEmail)

lemma names_examples:
  "\<not> name_invalid (js ''Jean-Paul'')" "\<not> name_invalid OBrien" "\<not> name_invalid Mueller"
  "name_invalid (js ''A'')" "name_invalid (js ''John123'')"
  by code_simp+

lemma email_examples:
  "test regexEmail (js ''a@b.co'')" "2 \<le> length (trim (js ''a@b.co''))"
  "\<not> test regexEmail (js ''not-an-email'')"
  "\<not> test regexEmail (js '' a@b.co'')" "test regexEmail (trim (js '' a@b.co''))"
  by code_simp+

text \<open>
  C3. A name field (first or last: \<open>validateName\<close> is one function for both) fails
  exactly when the trimmed value is shorter than 2 or the trimmed value does not match the
  name pattern, and passes otherwise; Jean-Paul, O'Brien and Mueller (with U+00FC) pass, A and John123
  fail.
\<close>

theorem validateName_rule:
  assumes "querySelector p errorClass = Some k"
  shows "(check_fails errorClass (validateName (Some n) errorClass (False, p)) \<longleftrightarrow>
            length (trim (input_value (elements p n))) < 2
            \<or> \<not> name_pattern (trim (input_value (elements p n))))
       \<and> (check_passes errorClass (validateName (Some n) errorClass (False, p)) \<longleftrightarrow>
            \<not> (length (trim (input_value (elements p n))) < 2
               \<or> \<not> name_pattern (trim (input_value (elements p n)))))
       \<and> (input_value (elements p n) \<in> {js ''Jean-Paul'', OBrien, Mueller} \<longrightarrow>
            check_passes errorClass (validateName (Some n) errorClass (False, p)))
       \<and> (input_value (elements p n) \<in> {js ''A'', js ''John123''} \<longrightarrow>
            check_fails errorClass (validateName (Some n) errorClass (False, p)))"
proof -
  let ?v = "input_value (elements p n)"
  have f: "check_fails errorClass (validateName (Some n) errorClass (False, p)) = name_invalid ?v"
    and g: "check_passes errorClass (validateName (Some n) errorClass (False, p)) = (\<not> name_invalid ?v)"
    by (simp_all add: validateName_run [OF assms] check_outcome [OF assms])
  have "?v \<in> {js ''Jean-Paul'', OBrien, Mueller} \<longrightarrow> \<not> name_invalid ?v"
    using names_examples by auto
  moreover have "?v \<in> {js ''A'', js ''John123''} \<longrightarrow> name_invalid ?v"
    using names_examples by auto
  ultimately show ?thesis
    unfolding f g by (simp add: name_invalid_pattern)
qed

theorem validateName_rule_witness:
  "check_passes ''.errorLast'' (validateName (Some 1) ''.errorLast'' (False, good_page))
   \<and> check_fails ''.errorLast'' (validateName (Some 1) ''.errorLast'' (False, bad_page))"
proof -
  have h: "querySelector good_page ''.errorLast'' = Some 5"
      "querySelector bad_page ''.errorLast'' = Some 5"
    by code_simp+
  have "input_value (elements good_page 1) = OBrien"
      "input_value (elements bad_page 1) = js ''John123''"
    by code_simp+
  then have v: "input_value (elements good_page 1) \<in> {js ''Jean-Paul'', OBrien, Mueller}"
      "input_value (elements bad_page 1) \<in> {js ''A'', js ''John123''}"
    by simp_all
  from validateName_rule [OF h(1), of 1] v(1) validateName_rule [OF h(2), of 1] v(2)
  show ?thesis by blast
qed

text \<open>
  C4. The email field fails exactly when the trimmed value is shorter than 2, or the
  browser reports the field invalid, or the value as it is (not trimmed) does not match
  the email pattern; it passes otherwise. So \<^verbatim>\<open>a@b.co\<close> passes (the browser finding it
  valid), \<^verbatim>\<open>not-an-email\<close> fails, and a value that does not match fails although its
  trimmed form matches, as \<^verbatim>\<open>a@b.co\<close> after a space does.
\<close>

theorem validateEmail_rule:
  assumes "querySelector p ''.errorEmail'' = Some k"
  shows "(check_fails ''.errorEmail'' (validateEmail (Some n) (False, p)) \<longleftrightarrow>
            length (trim (input_value (elements p n))) < 2
            \<or> \<not> validity_valid (elements p n)
            \<or> \<not> email_pattern (input_value (elements p n)))
       \<and> (check_passes ''.errorEmail'' (validateEmail (Some n) (False, p)) \<longleftrightarrow>
            \<not> (length (trim (input_value (elements p n))) < 2
               \<or> \<not> validity_valid (elements p n)
               \<or> \<not> email_pattern (input_value (elements p n))))
       \<and> (input_value (elements p n) = js ''a@b.co'' \<and> validity_valid (elements p n) \<longrightarrow>
            check_passes ''.errorEmail'' (validateEmail (Some n) (False, p)))
       \<and> (input_value (elements p n) = js ''not-an-email'' \<longrightarrow>
            check_fails ''.errorEmail'' (validateEmail (Some n) (False, p)))
       \<and> (\<not> email_pattern (input_value (elements p n))
            \<and> email_pattern (trim (input_value (elements p n))) \<longrightarrow>
            check_fails ''.errorEmail'' (validateEmail (Some n) (False, p)))
       \<and> (input_value (elements p n) = js '' a@b.co'' \<longrightarrow>
            \<not> email_pattern (input_value (elements p n))
            \<and> email_pattern (trim (input_value (elements p n))))"
proof -
  let ?v = "input_value (elements p n)" and ?ok = "validity_valid (elements p n)"
  have f: "check_fails ''.errorEmail'' (validateEmail (Some n) (False, p)) = email_invalid ?v ?ok"
    and g: "check_passes ''.errorEmail'' (validateEmail (Some n) (False, p)) = (\<not> email_invalid ?v ?ok)"
    by (simp_all add: validateEmail_run [OF assms] check_outcome [OF assms])
  have "?v = js ''a@b.co'' \<and> ?ok \<longrightarrow> \<not> email_invalid ?v ?ok"
    using email_examples(1,2) by (auto simp: email_invalid_def)
  moreover have "?v = js ''not-an-email'' \<longrightarrow> email_invalid ?v ?ok"
    using email_examples(3) by (auto simp: email_invalid_def)
  moreover have "?v = js '' a@b.co'' \<longrightarrow> \<not> email_pattern ?v \<and> email_pattern (trim ?v)"
    using email_examples(4,5) by (auto simp: test_regexEmail)
  ultimately show ?thesis
    unfolding f g by (simp add: email_invalid_pattern)
qed

theorem validateEmail_rule_witness:
  "check_passes ''.errorEmail'' (validateEmail (Some 2) (False, good_page))
   \<and> check_fails ''.errorEmail'' (validateEmail (Some 2) (False, spaced_page))"
proof -
  have h: "querySelector good_page ''.errorEmail'' = Some 6"
      "querySelector spaced_page ''.errorEmail'' = Some 6"
    by code_simp+
  have v: "input_value (elements good_page 2) = js ''a@b.co''"
      "validity_valid (elements good_page 2)"
      "input_value (elements spaced_page 2) = js '' a@b.co''"
    by code_simp+
  from validateEmail_rule [OF h(1), of 2] v(1,2)
  have "check_passes ''.errorEmail'' (validateEmail (Some 2) (False, good_page))"
    by blast
  moreover from validateEmail_rule [OF h(2), of 2] v(3)
  have "check_fails ''.errorEmail'' (validateEmail (Some 2) (False, spaced_page))"
    by blast
  ultimately show ?thesis by simp
qed

text \<open>
  C5. The message field fails exactly when the trimmed value is shorter than 2, and
  passes exactly when the trimmed value has 2 code units or more, whatever they are: no
  pattern is applied. A message of length 0 or 1 fails.
\<close>

theorem validateMessage_rule:
  assumes "querySelector p ''.errorMessage'' = Some k"
  shows "(check_fails ''.errorMessage'' (validateMessage (Some n) (False, p)) \<longleftrightarrow>
            length (trim (input_value (elements p n))) < 2)
       \<and> (check_passes ''.errorMessage'' (validateMessage (Some n) (False, p)) \<longleftrightarrow>
            2 \<le> length (trim (input_value (elements p n))))
       \<and> (length (input_value (elements p n)) \<le> 1 \<longrightarrow>
            check_fails ''.errorMessage'' (validateMessage (Some n) (False, p)))"
proof -
  let ?v = "input_value (elements p n)"
  have f: "check_fails ''.errorMessage'' (validateMessage (Some n) (False, p)) = message_invalid ?v"
    and g: "check_passes ''.errorMessage'' (validateMessage (Some n) (False, p)) = (\<not> message_invalid ?v)"
    by (simp_all add: validateMessage_run [OF assms] check_outcome [OF assms])
  have "length (trim ?v) \<le> length ?v" by (rule length_trim_le)
  then show ?thesis
    unfolding f g by (auto simp: message_invalid_def)
qed

theorem validateMessage_rule_witness:
  "check_passes ''.errorMessage'' (validateMessage (Some 3) (False, good_page))
   \<and> check_fails ''.errorMessage'' (validateMessage (Some 3) (False, blank_page))"
proof -
  have h: "querySelector good_page ''.errorMessage'' = Some 7"
      "querySelector blank_page ''.errorMessage'' = Some 7"
    by code_simp+
  have v: "2 \<le> length (trim (input_value (elements good_page 3)))"
      "length (trim (input_value (elements blank_page 3))) < 2"
    by code_simp+
  from validateMessage_rule [OF h(1), of 3] v(1) validateMessage_rule [OF h(2), of 3] v(2)
  show ?thesis by blast
qed


text \<open>
  A message of two spaces has length 2; trimmed it is empty, and the check fails.
\<close>

theorem two_spaces_message_fails:
  "length (input_value (elements blank_page 3)) = 2
   \<and> querySelector blank_page ''#message'' = Some 3
   \<and> check_fails ''.errorMessage''
         (validateMessage (querySelector blank_page ''#message'') (False, blank_page))
   \<and> \<not> check_passes ''.errorMessage''
         (validateMessage (querySelector blank_page ''#message'') (False, blank_page))"
  by code_simp

section \<open>A pass of the handler\<close>

lemma form_presentD:
  assumes "form_present p"
  obtains f l e m kf kl ke km where
    "querySelector p ''#first'' = Some f" "querySelector p ''#last'' = Some l"
    "querySelector p ''#email'' = Some e" "querySelector p ''#message'' = Some m"
    "querySelector p ''.errorFirst'' = Some kf" "querySelector p ''.errorLast'' = Some kl"
    "querySelector p ''.errorEmail'' = Some ke" "querySelector p ''.errorMessage'' = Some km"
  using assms unfolding form_present_def by auto

text \<open>The page after the four checks, given the four verdicts.\<close>

lemma perform_validation_run:
  assumes "querySelector p ''#first'' = Some f" "querySelector p ''#last'' = Some l"
    "querySelector p ''#email'' = Some e" "querySelector p ''#message'' = Some m"
    "querySelector p ''.errorFirst'' = Some kf" "querySelector p ''.errorLast'' = Some kl"
    "querySelector p ''.errorEmail'' = Some ke" "querySelector p ''.errorMessage'' = Some km"
  shows "perform_validation p =
    Inr (name_invalid (input_value (elements p f))
         \<or> name_invalid (input_value (elements p l))
         \<or> email_invalid (input_value (elements p e)) (validity_valid (elements p e))
         \<or> message_invalid (input_value (elements p m)),
      console_log [Str (input_value (elements p m))]
        (indicate km (message_invalid (input_value (elements p m)))
      (console_log [Str (input_value (elements p e))]
        (indicate ke (email_invalid (input_value (elements p e)) (validity_valid (elements p e)))
      (console_log [Str (input_value (elements p l))]
        (indicate kl (name_invalid (input_value (elements p l)))
      (console_log [Str (input_value (elements p f))]
        (indicate kf (name_invalid (input_value (elements p f))) p))))))))"
proof -
  let ?p1 = "console_log [Str (input_value (elements p f))]
               (indicate kf (name_invalid (input_value (elements p f))) p)"
  let ?p2 = "console_log [Str (input_value (elements p l))]
               (indicate kl (name_invalid (input_value (elements p l))) ?p1)"
  let ?p3 = "console_log [Str (input_value (elements p e))]
               (indicate ke (email_invalid (input_value (elements p e))
                               (validity_valid (elements p e))) ?p2)"
  have 1: "validateName (Some f) ''.errorFirst'' (False, p) =
             Inr (name_invalid (input_value (elements p f)), ?p1)"
    using validateName_run [OF assms(5), of f False] by simp
  have q1: "querySelector ?p1 ''.errorLast'' = Some kl" using assms(6) by simp
  have 2: "validateName (Some l) ''.errorLast'' (name_invalid (input_value (elements p f)), ?p1) =
             Inr (name_invalid (input_value (elements p f))
                  \<or> name_invalid (input_value (elements p l)), ?p2)"
    using validateName_run [OF q1, of l] by simp
  have q2: "querySelector ?p2 ''.errorEmail'' = Some ke" using assms(7) by simp
  have 3: "validateEmail (Some e)
             (name_invalid (input_value (elements p f))
              \<or> name_invalid (input_value (elements p l)), ?p2) =
             Inr ((name_invalid (input_value (elements p f))
                   \<or> name_invalid (input_value (elements p l)))
                  \<or> email_invalid (input_value (elements p e)) (validity_valid (elements p e)),
                  ?p3)"
    using validateEmail_run [OF q2, of e] by simp
  have q3: "querySelector ?p3 ''.errorMessage'' = Some km" using assms(8) by simp
  have 4: "validateMessage (Some m)
             ((name_invalid (input_value (elements p f))
               \<or> name_invalid (input_value (elements p l)))
              \<or> email_invalid (input_value (elements p e)) (validity_valid (elements p e)),
              ?p3) =
             Inr (((name_invalid (input_value (elements p f))
                    \<or> name_invalid (input_value (elements p l)))
                   \<or> email_invalid (input_value (elements p e)) (validity_valid (elements p e)))
                  \<or> message_invalid (input_value (elements p m)),
                  console_log [Str (input_value (elements p m))]
                    (indicate km (message_invalid (input_value (elements p m))) ?p3))"
    using validateMessage_run [OF q3, of m] by simp
  show ?thesis
    unfolding perform_validation_def Let_def assms(1-4)
    by (simp only: 1 2 3 4 and_then_Inr) simp
qed


lemma alone_passes:
  assumes "querySelector p ''.errorFirst'' = Some kf" "querySelector p ''.errorLast'' = Some kl"
    "querySelector p ''.errorEmail'' = Some ke" "querySelector p ''.errorMessage'' = Some km"
  shows "check_passes ''.errorFirst'' (validateName (Some f) ''.errorFirst'' (False, p))
           = (\<not> name_invalid (input_value (elements p f)))"
    and "check_passes ''.errorLast'' (validateName (Some l) ''.errorLast'' (False, p))
           = (\<not> name_invalid (input_value (elements p l)))"
    and "check_passes ''.errorEmail'' (validateEmail (Some e) (False, p))
           = (\<not> email_invalid (input_value (elements p e)) (validity_valid (elements p e)))"
    and "check_passes ''.errorMessage'' (validateMessage (Some m) (False, p))
           = (\<not> message_invalid (input_value (elements p m)))"
  by (simp_all add: validateName_run [OF assms(1)] validateName_run [OF assms(2)]
      validateEmail_run [OF assms(3)] validateMessage_run [OF assms(4)]
      check_outcome [OF assms(1)] check_outcome [OF assms(2)]
      check_outcome [OF assms(3)] check_outcome [OF assms(4)])

lemma prevented_keeps [simp]:
  "querySelector (p\<lparr>defaultPrevented := b\<rparr>) = querySelector p"
  "elements (p\<lparr>defaultPrevented := b\<rparr>) = elements p"
  by simp_all

text \<open>
  C1. On a page that has the form, a pass of the handler reaches its end, and the flag
  \<^verbatim>\<open>errors\<close> is then false (the handler returns true) exactly when each of the four
  checks, run on its own, passes; that is, exactly when every field passes its rule.
\<close>

theorem validation_flag:
  assumes "form_present p"
  shows "\<exists>errors p1.
       perform_validation (p\<lparr>defaultPrevented := True\<rparr>) = Inr (errors, p1)
     \<and> submit_handler p = Inr (\<not> errors, if \<not> errors then closeModal p1 else p1)
     \<and> (\<not> errors \<longleftrightarrow>
          check_passes ''.errorFirst''
            (validateName (querySelector p ''#first'') ''.errorFirst'' (False, p))
          \<and> check_passes ''.errorLast''
            (validateName (querySelector p ''#last'') ''.errorLast'' (False, p))
          \<and> check_passes ''.errorEmail'' (validateEmail (querySelector p ''#email'') (False, p))
          \<and> check_passes ''.errorMessage''
            (validateMessage (querySelector p ''#message'') (False, p)))
     \<and> (\<not> errors \<longleftrightarrow> fields_valid p)"
proof -
  let ?p = "p\<lparr>defaultPrevented := True\<rparr>"
  from assms obtain f l e m kf kl ke km where q:
    "querySelector p ''#first'' = Some f" "querySelector p ''#last'' = Some l"
    "querySelector p ''#email'' = Some e" "querySelector p ''#message'' = Some m"
    "querySelector p ''.errorFirst'' = Some kf" "querySelector p ''.errorLast'' = Some kl"
    "querySelector p ''.errorEmail'' = Some ke" "querySelector p ''.errorMessage'' = Some km"
    by (rule form_presentD)
  have q': "querySelector ?p ''#first'' = Some f" "querySelector ?p ''#last'' = Some l"
    "querySelector ?p ''#email'' = Some e" "querySelector ?p ''#message'' = Some m"
    "querySelector ?p ''.errorFirst'' = Some kf" "querySelector ?p ''.errorLast'' = Some kl"
    "querySelector ?p ''.errorEmail'' = Some ke" "querySelector ?p ''.errorMessage'' = Some km"
    using q by simp_all
  show ?thesis
    unfolding submit_handler_def perform_validation_run [OF q'] fields_valid_def
      field_value_def field_valid_def q alone_passes [OF q(5-8)]
    by simp
qed

theorem validation_flag_witness:
  "(\<exists>p'. submit_handler good_page = Inr (True, p')) \<and> fields_valid good_page
   \<and> (\<exists>p'. submit_handler bad_page = Inr (False, p')) \<and> \<not> fields_valid bad_page"
proof -
  have h: "form_present good_page" "form_present bad_page"
    by code_simp+
  have v: "fields_valid good_page" "\<not> fields_valid bad_page"
    by code_simp+
  from validation_flag [OF h(1)] v(1) validation_flag [OF h(2)] v(2)
  show ?thesis by auto
qed

lemma closeModal_keeps [simp]:
  "querySelector (closeModal p) = querySelector p"
  "elements (closeModal p) = elements p"
  "console (closeModal p) = console p"
  "closeModal_calls (closeModal p) = Suc (closeModal_calls p)"
  by (simp_all add: closeModal_def)

lemma calls_kept [simp]:
  "closeModal_calls (console_log a p) = closeModal_calls p"
  "closeModal_calls (indicate k b p) = closeModal_calls p"
  by (simp_all add: console_log_def indicate_def)

text \<open>
  C2. On a page that has the form: when all four fields are valid the handler calls
  \<^verbatim>\<open>closeModal\<close> once and returns true; when a field is invalid it does not call it and
  returns false.
\<close>

theorem submit_outcome:
  assumes "form_present p"
  shows "(fields_valid p \<longrightarrow>
            (\<exists>p'. submit_handler p = Inr (True, p')
                  \<and> closeModal_calls p' = Suc (closeModal_calls p)))
       \<and> (\<not> fields_valid p \<longrightarrow>
            (\<exists>p'. submit_handler p = Inr (False, p')
                  \<and> closeModal_calls p' = closeModal_calls p))"
proof -
  let ?p = "p\<lparr>defaultPrevented := True\<rparr>"
  from assms obtain f l e m kf kl ke km where q:
    "querySelector p ''#first'' = Some f" "querySelector p ''#last'' = Some l"
    "querySelector p ''#email'' = Some e" "querySelector p ''#message'' = Some m"
    "querySelector p ''.errorFirst'' = Some kf" "querySelector p ''.errorLast'' = Some kl"
    "querySelector p ''.errorEmail'' = Some ke" "querySelector p ''.errorMessage'' = Some km"
    by (rule form_presentD)
  have q': "querySelector ?p ''#first'' = Some f" "querySelector ?p ''#last'' = Some l"
    "querySelector ?p ''#email'' = Some e" "querySelector ?p ''#message'' = Some m"
    "querySelector ?p ''.errorFirst'' = Some kf" "querySelector ?p ''.errorLast'' = Some kl"
    "querySelector ?p ''.errorEmail'' = Some ke" "querySelector ?p ''.errorMessage'' = Some km"
    using q by simp_all
  show ?thesis
    unfolding submit_handler_def perform_validation_run [OF q'] fields_valid_def
      field_value_def field_valid_def q
    by (simp add: console_log_def indicate_def)
qed

theorem submit_outcome_witness:
  "(\<exists>p'. submit_handler good_page = Inr (True, p') \<and> closeModal_calls p' = 1)
   \<and> (\<exists>p'. submit_handler bad_page = Inr (False, p') \<and> closeModal_calls p' = 0)"
proof -
  have h: "form_present good_page" "form_present bad_page"
    by code_simp+
  have v: "fields_valid good_page" "\<not> fields_valid bad_page"
    by code_simp+
  have c: "closeModal_calls good_page = 0" "closeModal_calls bad_page = 0"
    by code_simp+
  from submit_outcome [OF h(1)] v(1) submit_outcome [OF h(2)] v(2) c
  show ?thesis by auto
qed


lemma display_indicate:
  "style_display (elements (indicate k b p) n) =
     (if n = k then (if b then ''inline'' else ''none'') else style_display (elements p n))"
  by (simp add: indicate_def)

lemma console_indicate [simp]: "console (indicate k b p) = console p"
  by (simp add: indicate_def)

lemma console_console_log [simp]: "console (console_log a p) = console p @ [ConsoleLog a]"
  by (simp add: console_log_def)

text \<open>
  C8. On a page that has the form, with four distinct indicators, every pass runs the
  four checks (each logs the value it checked, in the order of the calls) and leaves each
  indicator displayed \<^verbatim>\<open>inline\<close> when its field failed this pass and \<^verbatim>\<open>none\<close> when
  it passed, whatever the indicators showed before.
\<close>

theorem indicators_rewritten:
  assumes "form_present p" "indicators_distinct p"
  shows "\<exists>ret p'. submit_handler p = Inr (ret, p')
     \<and> indicator_display p' ''.errorFirst''
         = Some (if name_invalid (field_value p ''#first'') then ''inline'' else ''none'')
     \<and> indicator_display p' ''.errorLast''
         = Some (if name_invalid (field_value p ''#last'') then ''inline'' else ''none'')
     \<and> indicator_display p' ''.errorEmail''
         = Some (if email_invalid (field_value p ''#email'') (field_valid p ''#email'')
                 then ''inline'' else ''none'')
     \<and> indicator_display p' ''.errorMessage''
         = Some (if message_invalid (field_value p ''#message'') then ''inline'' else ''none'')
     \<and> console p' = console p @
           [ConsoleLog [Str (field_value p ''#first'')], ConsoleLog [Str (field_value p ''#last'')],
            ConsoleLog [Str (field_value p ''#email'')],
            ConsoleLog [Str (field_value p ''#message'')]]"
proof -
  let ?p = "p\<lparr>defaultPrevented := True\<rparr>"
  from assms(1) obtain f l e m kf kl ke km where q:
    "querySelector p ''#first'' = Some f" "querySelector p ''#last'' = Some l"
    "querySelector p ''#email'' = Some e" "querySelector p ''#message'' = Some m"
    "querySelector p ''.errorFirst'' = Some kf" "querySelector p ''.errorLast'' = Some kl"
    "querySelector p ''.errorEmail'' = Some ke" "querySelector p ''.errorMessage'' = Some km"
    by (rule form_presentD)
  have q': "querySelector ?p ''#first'' = Some f" "querySelector ?p ''#last'' = Some l"
    "querySelector ?p ''#email'' = Some e" "querySelector ?p ''#message'' = Some m"
    "querySelector ?p ''.errorFirst'' = Some kf" "querySelector ?p ''.errorLast'' = Some kl"
    "querySelector ?p ''.errorEmail'' = Some ke" "querySelector ?p ''.errorMessage'' = Some km"
    using q by simp_all
  have d: "kf \<noteq> kl" "kf \<noteq> ke" "kf \<noteq> km" "kl \<noteq> ke" "kl \<noteq> km" "ke \<noteq> km"
    using assms(2) q(5-8) by (auto simp: indicators_distinct_def)
  show ?thesis
    unfolding submit_handler_def perform_validation_run [OF q'] indicator_display_def
      field_value_def field_valid_def
    using d by (simp add: q display_indicate)
qed

theorem indicators_rewritten_witness:
  "\<exists>ret p'. submit_handler bad_page = Inr (ret, p')
     \<and> indicator_display bad_page ''.errorFirst'' = Some ''inline''
     \<and> indicator_display p' ''.errorFirst'' = Some ''none''
     \<and> indicator_display p' ''.errorLast'' = Some ''inline''
     \<and> indicator_display p' ''.errorEmail'' = Some ''none''
     \<and> indicator_display p' ''.errorMessage'' = Some ''none''"
proof -
  have h: "form_present bad_page" "indicators_distinct bad_page"
    by code_simp+
  have v: "\<not> name_invalid (field_value bad_page ''#first'')"
      "name_invalid (field_value bad_page ''#last'')"
      "\<not> email_invalid (field_value bad_page ''#email'') (field_valid bad_page ''#email'')"
      "\<not> message_invalid (field_value bad_page ''#message'')"
      "indicator_display bad_page ''.errorFirst'' = Some ''inline''"
    by code_simp+
  from indicators_rewritten [OF h] v show ?thesis by auto
qed

section \<open>Loading the profile\<close>

lemma try_block_answers:
  assumes "answers net ps"
  shows "try_block s net p =
           Inr (find (matches s) ps,
                console_log [Text ''Fetched photographer details for form:'',
                             Found (find (matches s) ps)]
                  (p\<lparr>requests := requests p @ [the_request]\<rparr>))"
proof -
  from assms obtain r where r: "net = Response r" "ok r" "payload r = Photographers ps"
    by (cases net) (simp_all add: answers_def)
  have "(\<lambda>q. strict_equals (p_id q) (parseInt10 s)) = matches s"
    by (simp add: matches_def fun_eq_iff)
  then show ?thesis
    using r by (simp add: try_block_def Let_def)
qed

lemma try_block_fails:
  assumes "request_fails net"
  shows "\<exists>e. try_block s net p = Inl (e, p\<lparr>requests := requests p @ [the_request]\<rparr>)"
proof (cases net)
  case Rejected
  then show ?thesis by (simp add: try_block_def Let_def)
next
  case (Response r)
  show ?thesis
  proof (cases "ok r")
    case False
    with Response show ?thesis by (simp add: try_block_def Let_def)
  next
    case True
    with assms Response have "payload r = InvalidJson \<or> payload r = NoCollection"
      by (simp add: request_fails_def)
    with True Response show ?thesis by (auto simp: try_block_def Let_def)
  qed
qed

lemma fails_or_answers: "request_fails net \<or> (\<exists>ps. answers net ps)"
proof (cases net)
  case Rejected
  then show ?thesis by (simp add: request_fails_def)
next
  case (Response r)
  then show ?thesis
    by (cases "payload r") (simp_all add: request_fails_def answers_def)
qed

lemma getPhotographerDetails_answers:
  assumes "answers net ps"
  shows "getPhotographerDetails s net p =
           Inr (find (matches s) ps,
                console_log [Text ''Fetched photographer details for form:'',
                             Found (find (matches s) ps)]
                  (p\<lparr>requests := requests p @ [the_request]\<rparr>))"
  by (simp add: getPhotographerDetails_def try_block_answers [OF assms])

lemma getPhotographerDetails_fails:
  assumes "request_fails net"
  shows "\<exists>e. getPhotographerDetails s net p =
           Inr (None,
                console_error [Text ''Failed to fetch photographer details for form:'', Thrown e]
                  (p\<lparr>requests := requests p @ [the_request]\<rparr>))"
proof -
  from try_block_fails [OF assms] obtain e where
    "try_block s net p = Inl (e, p\<lparr>requests := requests p @ [the_request]\<rparr>)" ..
  then have "getPhotographerDetails s net p =
           Inr (None,
                console_error [Text ''Failed to fetch photographer details for form:'', Thrown e]
                  (p\<lparr>requests := requests p @ [the_request]\<rparr>))"
    by (simp add: getPhotographerDetails_def)
  then show ?thesis ..
qed

lemma initForm_with_identifier:
  assumes "url_id p = Some s" "s \<noteq> []"
  shows "initForm net p =
           and_then (getPhotographerDetails s net p) (\<lambda>(photographer, p').
             case photographer of
               Some q \<Rightarrow> updateFormHeader (p_name q) p'
             | None \<Rightarrow>
                 Inr (console_error
                        [Text ''Failed to load photographer details for the form.''] p'))"
  using assms by (simp add: initForm_def url_id_def)

lemma find_matches_None: "find P xs = None \<longleftrightarrow> (\<forall>x \<in> set xs. \<not> P x)"
  by (auto simp: find_None_iff)

lemma find_matches_Some:
  assumes "x \<in> set xs" "P x"
  obtains y where "find P xs = Some y" "y \<in> set xs" "P y"
proof -
  from assms have "find P xs \<noteq> None" by (auto simp: find_None_iff)
  then obtain y where y: "find P xs = Some y" by auto
  then have "y \<in> set xs" "P y" by (auto simp: find_Some_iff)
  with y that show thesis by blast
qed

lemma console_error_keeps [simp]:
  "querySelector (console_error a p) = querySelector p"
  "elements (console_error a p) = elements p"
  "requests (console_error a p) = requests p"
  "console (console_error a p) = console p @ [ConsoleError a]"
  by (simp_all add: console_error_def)

lemma requests_console_log [simp]: "requests (console_log a p) = requests p"
  by (simp add: console_log_def)

text \<open>
  C7. When the query string has no pair named \<^verbatim>\<open>id\<close> (or an empty one), initialisation
  logs the error and stops: no request is issued and the document is as before.
\<close>

theorem no_identifier_no_fetch:
  assumes "url_id p = None \<or> url_id p = Some []"
  shows "\<exists>p'. initForm net p = Inr p'
     \<and> requests p' = requests p
     \<and> console p' = console p @ [ConsoleError [Text ''Photographer ID is required for the form.'']]
     \<and> elements p' = elements p \<and> heading p' = heading p"
  using assms by (auto simp: initForm_def url_id_def heading_def)

theorem no_identifier_no_fetch_witness:
  "url_id no_id_page = None
   \<and> (\<exists>p'. initForm found_response no_id_page = Inr p' \<and> requests p' = []
         \<and> heading p' = Some (js ''Contactez-moi''))"
proof -
  have h: "url_id no_id_page = None" "requests no_id_page = []"
      "heading no_id_page = Some (js ''Contactez-moi'')"
    by code_simp+
  from no_identifier_no_fetch [of no_id_page found_response] h(1)
  obtain p' where "initForm found_response no_id_page = Inr p'"
      "requests p' = requests no_id_page" "heading p' = heading no_id_page"
    by auto
  with h show ?thesis by simp
qed

lemma updateFormHeader_run:
  assumes "querySelector p ''#contact_modal h2'' = Some h"
  shows "\<exists>p'. updateFormHeader name p = Inr p'
     \<and> heading p' = Some (js ''Contactez-moi '' @ name)
     \<and> querySelector p' = querySelector p"
  using assms by (simp add: updateFormHeader_def heading_def console_log_def)

lemma initForm_found:
  assumes "url_id p = Some s" "s \<noteq> []" "answers net ps" "find (matches s) ps = Some q"
    "querySelector p ''#contact_modal h2'' = Some h"
  shows "\<exists>p'. initForm net p = Inr p' \<and> heading p' = Some (js ''Contactez-moi '' @ p_name q)"
proof -
  let ?p1 = "console_log [Text ''Fetched photographer details for form:'', Found (Some q)]
               (p\<lparr>requests := requests p @ [the_request]\<rparr>)"
  have "querySelector ?p1 ''#contact_modal h2'' = Some h"
    using assms(5) by simp
  from updateFormHeader_run [OF this, of "p_name q"]
  obtain p' where "updateFormHeader (p_name q) ?p1 = Inr p'"
      "heading p' = Some (js ''Contactez-moi '' @ p_name q)"
    by blast
  then show ?thesis
    by (simp add: initForm_with_identifier [OF assms(1,2)]
        getPhotographerDetails_answers [OF assms(3)] assms(4))
qed

lemma initForm_not_found:
  assumes "url_id p = Some s" "s \<noteq> []" "answers net ps" "\<forall>q \<in> set ps. \<not> matches s q"
  shows "\<exists>p'. initForm net p = Inr p' \<and> elements p' = elements p \<and> heading p' = heading p
     \<and> console p' = console p @
          [ConsoleLog [Text ''Fetched photographer details for form:'', Found None],
           ConsoleError [Text ''Failed to load photographer details for the form.'']]"
proof -
  have "find (matches s) ps = None"
    using assms(4) by (simp add: find_matches_None)
  then show ?thesis
    by (simp add: initForm_with_identifier [OF assms(1,2)]
        getPhotographerDetails_answers [OF assms(3)] heading_def)
qed

lemma initForm_failed:
  assumes "url_id p = Some s" "s \<noteq> []" "request_fails net"
  shows "\<exists>p' e. initForm net p = Inr p' \<and> elements p' = elements p \<and> heading p' = heading p
     \<and> console p' = console p @
          [ConsoleError [Text ''Failed to fetch photographer details for form:'', Thrown e],
           ConsoleError [Text ''Failed to load photographer details for the form.'']]"
proof -
  from getPhotographerDetails_fails [OF assms(3), of s p] obtain e where
    "getPhotographerDetails s net p =
       Inr (None,
            console_error [Text ''Failed to fetch photographer details for form:'', Thrown e]
              (p\<lparr>requests := requests p @ [the_request]\<rparr>))" ..
  then have "initForm net p =
      Inr (console_error [Text ''Failed to load photographer details for the form.'']
             (console_error [Text ''Failed to fetch photographer details for form:'', Thrown e]
                (p\<lparr>requests := requests p @ [the_request]\<rparr>)))"
    by (simp add: initForm_with_identifier [OF assms(1,2)])
  then show ?thesis by (simp add: heading_def)
qed

text \<open>
  C6. With an identifier in the URL and the heading in the page: when the request
  answers with records of which one has the identifier the string parses to, the heading
  becomes the greeting with the name of the record found (the first such record; the
  only one when identifiers are not repeated); when no record matches, or the request
  fails, two entries are logged, the last an error, and no element is changed.
\<close>

theorem profile_loaded:
  assumes "url_id p = Some s" "s \<noteq> []"
  shows "(answers net ps \<and> q \<in> set ps \<and> matches s q
            \<and> querySelector p ''#contact_modal h2'' = Some h \<longrightarrow>
          (\<exists>q' p'. initForm net p = Inr p'
             \<and> q' \<in> set ps \<and> matches s q'
             \<and> heading p' = Some (js ''Contactez-moi '' @ p_name q')
             \<and> ((\<forall>r \<in> set ps. matches s r \<longrightarrow> r = q) \<longrightarrow> q' = q)))
       \<and> (answers net ps \<and> (\<forall>r \<in> set ps. \<not> matches s r) \<longrightarrow>
          (\<exists>p'. initForm net p = Inr p' \<and> elements p' = elements p \<and> heading p' = heading p
             \<and> console p' = console p @
                  [ConsoleLog [Text ''Fetched photographer details for form:'', Found None],
                   ConsoleError [Text ''Failed to load photographer details for the form.'']]))
       \<and> (request_fails net \<longrightarrow>
          (\<exists>p' e. initForm net p = Inr p' \<and> elements p' = elements p \<and> heading p' = heading p
             \<and> console p' = console p @
                  [ConsoleError [Text ''Failed to fetch photographer details for form:'', Thrown e],
                   ConsoleError [Text ''Failed to load photographer details for the form.'']]))"
proof (intro conjI impI)
  assume a: "answers net ps \<and> q \<in> set ps \<and> matches s q
             \<and> querySelector p ''#contact_modal h2'' = Some h"
  then obtain q' where q': "find (matches s) ps = Some q'" "q' \<in> set ps" "matches s q'"
    using find_matches_Some [of q ps "matches s"] by blast
  from a initForm_found [OF assms _ q'(1), of net h]
  obtain p' where "initForm net p = Inr p'" "heading p' = Some (js ''Contactez-moi '' @ p_name q')"
    by blast
  with q' show "\<exists>q' p'. initForm net p = Inr p'
             \<and> q' \<in> set ps \<and> matches s q'
             \<and> heading p' = Some (js ''Contactez-moi '' @ p_name q')
             \<and> ((\<forall>r \<in> set ps. matches s r \<longrightarrow> r = q) \<longrightarrow> q' = q)"
    by blast
next
  assume "answers net ps \<and> (\<forall>r \<in> set ps. \<not> matches s r)"
  then show "\<exists>p'. initForm net p = Inr p' \<and> elements p' = elements p \<and> heading p' = heading p
             \<and> console p' = console p @
                  [ConsoleLog [Text ''Fetched photographer details for form:'', Found None],
                   ConsoleError [Text ''Failed to load photographer details for the form.'']]"
    using initForm_not_found [OF assms, of net ps] by blast
next
  assume "request_fails net"
  then show "\<exists>p' e. initForm net p = Inr p' \<and> elements p' = elements p \<and> heading p' = heading p
             \<and> console p' = console p @
                  [ConsoleError [Text ''Failed to fetch photographer details for form:'', Thrown e],
                   ConsoleError [Text ''Failed to load photographer details for the form.'']]"
    by (rule initForm_failed [OF assms])
qed

theorem profile_loaded_witness:
  "(\<exists>p'. initForm found_response good_page = Inr p'
        \<and> heading p' = Some (js ''Contactez-moi Ellie-Rose Wilkens''))
   \<and> (\<exists>p'. initForm not_found_response good_page = Inr p'
        \<and> elements p' = elements good_page)"
proof -
  let ?q = "\<lparr>p_id = Finite 7, p_name = js ''Ellie-Rose Wilkens''\<rparr>"
  have h: "url_id good_page = Some (js ''7'')" "js ''7'' \<noteq> []"
    by code_simp+
  have parsed: "parseInt10 (js ''7'') = Finite 7"
    by (simp add: parseInt10_def js_def white_space_def digit_def digits_value_def
        to_number_def nearest_double_def)
  have a: "answers found_response two_records"
      "querySelector good_page ''#contact_modal h2'' = Some 8"
      "js ''Contactez-moi '' @ p_name ?q = js ''Contactez-moi Ellie-Rose Wilkens''"
    by code_simp+
  have m: "?q \<in> set two_records" "matches (js ''7'') ?q"
      "\<forall>r \<in> set two_records. matches (js ''7'') r \<longrightarrow> r = ?q"
    by (simp_all add: two_records_def matches_def strict_equals_def parsed)
  have f: "request_fails not_found_response"
    by code_simp
  note loaded = profile_loaded [OF h, of found_response two_records ?q 8]
  note failed = profile_loaded [OF h, of not_found_response two_records ?q 8]
  from loaded have "answers found_response two_records \<and> ?q \<in> set two_records
      \<and> matches (js ''7'') ?q \<and> querySelector good_page ''#contact_modal h2'' = Some 8 \<longrightarrow>
      (\<exists>q' p'. initForm found_response good_page = Inr p'
         \<and> q' \<in> set two_records \<and> matches (js ''7'') q'
         \<and> heading p' = Some (js ''Contactez-moi '' @ p_name q')
         \<and> ((\<forall>r \<in> set two_records. matches (js ''7'') r \<longrightarrow> r = ?q) \<longrightarrow> q' = ?q))"
    by (rule conjunct1)
  with a(1,2) m(1,2) obtain q' p' where *: "initForm found_response good_page = Inr p'"
      "heading p' = Some (js ''Contactez-moi '' @ p_name q')"
      "(\<forall>r \<in> set two_records. matches (js ''7'') r \<longrightarrow> r = ?q) \<longrightarrow> q' = ?q"
    by blast
  from *(3) m(3) have "q' = ?q" by (rule mp)
  with *(2) a(3) have "heading p' = Some (js ''Contactez-moi Ellie-Rose Wilkens'')"
    by simp
  with *(1) have 1: "\<exists>p'. initForm found_response good_page = Inr p'
        \<and> heading p' = Some (js ''Contactez-moi Ellie-Rose Wilkens'')"
    by blast
  from failed have "request_fails not_found_response \<longrightarrow>
      (\<exists>p' e. initForm not_found_response good_page = Inr p' \<and> elements p' = elements good_page
         \<and> heading p' = heading good_page
         \<and> console p' = console good_page @
              [ConsoleError [Text ''Failed to fetch photographer details for form:'', Thrown e],
               ConsoleError [Text ''Failed to load photographer details for the form.'']])"
    by (rule conjunct2 [THEN conjunct2])
  with f have 2: "\<exists>p'. initForm not_found_response good_page = Inr p'
      \<and> elements p' = elements good_page"
    by blast
  from 1 2 show ?thesis by (rule conjI)
qed

subsection \<open>Parsing the identifier\<close>

lemma digit_not_space: "digit c \<Longrightarrow> \<not> white_space c"
  unfolding digit_def white_space_def
  by (auto simp: word_le_nat_alt)

lemma digit_not_sign: "digit c \<Longrightarrow> c \<noteq> 0x2B \<and> c \<noteq> 0x2D"
  unfolding digit_def by auto

lemma nearest_double_exact: "m \<le> 2 ^ 53 \<Longrightarrow> nearest_double m = Some m"
  by (simp add: nearest_double_def)

text \<open>Beyond \<open>2 ^ 53\<close> an integer is rounded to the nearest double, a tie to the even one.\<close>

lemma nearest_double_examples:
  "nearest_double 9007199254740993 = Some 9007199254740992"
  "nearest_double 9007199254740994 = Some 9007199254740994"
  "nearest_double 9007199254740995 = Some 9007199254740996"
  by (simp_all add: nearest_double_def Let_def)

text \<open>
  White space, then at most one sign, then decimal digits: the string parses to the
  number the digits denote, negated after a minus sign, whatever follows the digits.
\<close>

lemma parseInt10_shape:
  assumes "list_all white_space w" "sg = [] \<or> sg = [0x2B] \<or> sg = [0x2D]"
    and "ds \<noteq> []" "list_all digit ds" "rest = [] \<or> \<not> digit (hd rest)"
    and "nearest_double (digits_value ds) = Some (digits_value ds)"
  shows "parseInt10 (w @ sg @ ds @ rest) =
           Finite (if sg = [0x2D] then - of_nat (digits_value ds) else of_nat (digits_value ds))"
proof -
  from assms(3) obtain d ds' where ds: "ds = d # ds'" by (cases ds) auto
  with assms(4) have d: "digit d" by simp
  have sp: "\<not> white_space (0x2B :: char16)" "\<not> white_space (0x2D :: char16)"
    by (simp_all add: white_space_def)
  have "dropWhile white_space (w @ sg @ ds @ rest) = dropWhile white_space (sg @ ds @ rest)"
    using assms(1) by (simp add: dropWhile_append2 list_all_iff)
  also have "\<dots> = sg @ ds @ rest"
    using assms(2) ds digit_not_space [OF d] sp by auto
  finally have 1: "dropWhile white_space (w @ sg @ ds @ rest) = sg @ ds @ rest" .
  have 3: "takeWhile digit (ds @ rest) = ds"
  proof -
    have "takeWhile digit rest = []"
      using assms(5) by (cases rest) auto
    moreover have "\<forall>x \<in> set ds. digit x"
      using assms(4) by (simp add: list_all_iff)
    ultimately show ?thesis by (simp add: takeWhile_append2)
  qed
  from assms(2) show ?thesis
  proof (elim disjE)
    assume sg: "sg = []"
    show ?thesis
      unfolding parseInt10_def 1 Let_def
      using digit_not_sign [OF d] 3 assms(3)
      by (simp add: sg ds to_number_def assms(6) [unfolded ds])
  next
    assume sg: "sg = [0x2B]"
    show ?thesis
      unfolding parseInt10_def 1 Let_def
      using 3 assms(3)
      by (simp add: sg to_number_def assms(6))
  next
    assume sg: "sg = [0x2D]"
    show ?thesis
      unfolding parseInt10_def 1 Let_def
      using 3 assms(3)
      by (simp add: sg to_number_def assms(6))
  qed
qed

text \<open>What \<open>parseInt10\<close> returns, when finite, is an integer; the empty string gives NaN.\<close>

lemma to_number_integer:
  assumes "to_number negative m = Finite r"
  shows "\<exists>n :: int. r = of_int n"
proof (cases "nearest_double m")
  case None
  with assms show ?thesis by (simp add: to_number_def split: if_splits)
next
  case (Some v)
  with assms have "r = (if negative then - of_nat v else of_nat v)"
    by (simp add: to_number_def)
  then have "r = of_int (if negative then - int v else int v)" by simp
  then show ?thesis ..
qed

lemma parseInt10_integer:
  assumes "parseInt10 s = Finite r"
  shows "\<exists>n :: int. r = of_int n"
proof -
  from assms obtain negative m where "to_number negative m = Finite r"
    unfolding parseInt10_def Let_def by (metis number.distinct(1))
  then show ?thesis by (rule to_number_integer)
qed

lemma parseInt10_empty: "parseInt10 [] = NaN"
  by (simp add: parseInt10_def)

lemma parse_examples:
  "parseInt10 (js ''7abc'') = Finite 7" "parseInt10 (js ''7.9'') = Finite 7"
  "parseInt10 (js '' 7abc'') = Finite 7" "parseInt10 (js ''+7'') = Finite 7"
  "parseInt10 (js ''-7abc'') = Finite (- 7)" "parseInt10 (js ''abc'') = NaN"
  by (simp_all add: parseInt10_def js_def white_space_def digit_def digits_value_def
      to_number_def nearest_double_def)

text \<open>
  C9. Whenever \<^verbatim>\<open>parseInt(id, 10)\<close> gives an integer \<open>n\<close> for the identifier string,
  and the request answers with records of which one has the identifier \<open>n\<close>, a record
  with identifier \<open>n\<close> is found (the first; the only one when identifiers are not
  repeated) and the heading becomes the greeting with its name. The strings that parse
  to an integer need not be decimal numerals: white space, then at most one sign, then
  decimal digits, then anything; \<^verbatim>\<open>7abc\<close>, \<^verbatim>\<open>7.9\<close>, \<^verbatim>\<open>+7\<close> and \<^verbatim>\<open>7abc\<close> after a space
  parse to 7, \<^verbatim>\<open>-7abc\<close> to -7. Every finite result of the parse is an integer.
\<close>

theorem parsed_identifier_matches:
  assumes "url_id p = Some s" and "parseInt10 s = Finite (of_int n)"
    and "answers net ps" "q \<in> set ps" "p_id q = Finite (of_int n)"
    and "querySelector p ''#contact_modal h2'' = Some h"
  shows "(\<exists>q' p'. initForm net p = Inr p'
             \<and> q' \<in> set ps \<and> p_id q' = Finite (of_int n)
             \<and> heading p' = Some (js ''Contactez-moi '' @ p_name q')
             \<and> ((\<forall>r \<in> set ps. p_id r = p_id q \<longrightarrow> r = q) \<longrightarrow> q' = q))
       \<and> parseInt10 (js ''7abc'') = Finite 7 \<and> parseInt10 (js ''7.9'') = Finite 7
       \<and> parseInt10 (js '' 7abc'') = Finite 7 \<and> parseInt10 (js ''+7'') = Finite 7
       \<and> parseInt10 (js ''-7abc'') = Finite (- 7)
       \<and> (\<forall>w sg ds rest.
             list_all white_space w \<and> (sg = [] \<or> sg = [0x2B] \<or> sg = [0x2D])
             \<and> ds \<noteq> [] \<and> list_all digit ds \<and> (rest = [] \<or> \<not> digit (hd rest))
             \<and> nearest_double (digits_value ds) = Some (digits_value ds) \<longrightarrow>
             parseInt10 (w @ sg @ ds @ rest) =
               Finite (if sg = [0x2D] then - of_nat (digits_value ds)
                       else of_nat (digits_value ds)))
       \<and> (\<forall>t r. parseInt10 t = Finite r \<longrightarrow> (\<exists>k :: int. r = of_int k))"
proof -
  have same: "matches s r \<longleftrightarrow> p_id r = p_id q" for r
    by (auto simp: matches_def strict_equals_def assms(2) assms(5))
  then have "matches s q" by simp
  with assms(4) obtain q' where q': "find (matches s) ps = Some q'" "q' \<in> set ps"
      "matches s q'"
    using find_matches_Some [of q ps "matches s"] by blast
  have ne: "s \<noteq> []" using assms(2) parseInt10_empty by auto
  from initForm_found [OF assms(1) ne assms(3) q'(1) assms(6)]
  obtain p' where "initForm net p = Inr p'"
      "heading p' = Some (js ''Contactez-moi '' @ p_name q')"
    by blast
  moreover have "p_id q' = Finite (of_int n)"
    using q'(3) same assms(5) by simp
  moreover have "(\<forall>r \<in> set ps. p_id r = p_id q \<longrightarrow> r = q) \<longrightarrow> q' = q"
    using q'(2,3) same by blast
  ultimately have found: "\<exists>q' p'. initForm net p = Inr p'
             \<and> q' \<in> set ps \<and> p_id q' = Finite (of_int n)
             \<and> heading p' = Some (js ''Contactez-moi '' @ p_name q')
             \<and> ((\<forall>r \<in> set ps. p_id r = p_id q \<longrightarrow> r = q) \<longrightarrow> q' = q)"
    using q'(2) by blast
  have shape: "\<forall>w sg ds rest.
             list_all white_space w \<and> (sg = [] \<or> sg = [0x2B] \<or> sg = [0x2D])
             \<and> ds \<noteq> [] \<and> list_all digit ds \<and> (rest = [] \<or> \<not> digit (hd rest))
             \<and> nearest_double (digits_value ds) = Some (digits_value ds) \<longrightarrow>
             parseInt10 (w @ sg @ ds @ rest) =
               Finite (if sg = [0x2D] then - of_nat (digits_value ds)
                       else of_nat (digits_value ds))"
    using parseInt10_shape by blast
  have whole: "\<forall>t r. parseInt10 t = Finite r \<longrightarrow> (\<exists>k :: int. r = of_int k)"
    using parseInt10_integer by blast
  from found parse_examples(1-5) shape whole show ?thesis
    by (intro conjI)
qed

theorem parsed_identifier_matches_witness:
  "url_id signed_page = Some (js ''-7abc'')
   \<and> parseInt10 (js ''-7abc'') = Finite (- 7)
   \<and> (\<exists>p'. initForm signed_response signed_page = Inr p'
         \<and> heading p' = Some (js ''Contactez-moi Tracy Galindo''))"
proof -
  let ?q = "\<lparr>p_id = Finite (- 7), p_name = js ''Tracy Galindo''\<rparr>"
  have h: "url_id signed_page = Some (js ''-7abc'')"
      "answers signed_response signed_records"
      "querySelector signed_page ''#contact_modal h2'' = Some 8"
      "js ''Contactez-moi '' @ p_name ?q = js ''Contactez-moi Tracy Galindo''"
    by code_simp+
  have parsed: "parseInt10 (js ''-7abc'') = Finite (of_int (- 7))"
    by (simp add: parseInt10_def js_def white_space_def digit_def digits_value_def
        to_number_def nearest_double_def)
  have m: "?q \<in> set signed_records" "p_id ?q = Finite (of_int (- 7))"
      "\<forall>r \<in> set signed_records. p_id r = p_id ?q \<longrightarrow> r = ?q"
    by (simp_all add: signed_records_def)
  from parsed_identifier_matches [OF h(1) parsed h(2) m(1,2) h(3)]
  obtain q' p' where *: "initForm signed_response signed_page = Inr p'"
      "heading p' = Some (js ''Contactez-moi '' @ p_name q')"
      "(\<forall>r \<in> set signed_records. p_id r = p_id ?q \<longrightarrow> r = ?q) \<longrightarrow> q' = ?q"
    by blast
  from *(3) m(3) have "q' = ?q" by (rule mp)
  with *(2) h(4) have "heading p' = Some (js ''Contactez-moi Tracy Galindo'')" by simp
  with *(1) have "\<exists>p'. initForm signed_response signed_page = Inr p'
         \<and> heading p' = Some (js ''Contactez-moi Tracy Galindo'')"
    by blast
  moreover have "parseInt10 (js ''-7abc'') = Finite (- 7)"
    using parsed by simp
  ultimately show ?thesis using h(1) by simp
qed

subsection \<open>No exception leaves the request\<close>

text \<open>
  C10. \<open>getPhotographerDetails\<close> always resolves, never rejects. When the request fails
  the exception is caught and logged and the value is undefined; when no record matches
  the value is undefined too; and \<open>initForm\<close>, given undefined, logs that the details could
  not be loaded and changes nothing else. Every outcome of the request is a failure or an
  answer with records.
\<close>

theorem details_always_resolve:
  "(\<exists>v p'. getPhotographerDetails s net p = Inr (v, p'))
   \<and> (request_fails net \<longrightarrow>
        (\<exists>e. getPhotographerDetails s net p =
           Inr (None,
                console_error [Text ''Failed to fetch photographer details for form:'', Thrown e]
                  (p\<lparr>requests := requests p @ [the_request]\<rparr>))))
   \<and> (answers net ps \<and> (\<forall>q \<in> set ps. \<not> matches s q) \<longrightarrow>
        (\<exists>p'. getPhotographerDetails s net p = Inr (None, p')))
   \<and> (url_id p = Some s \<and> s \<noteq> [] \<and> getPhotographerDetails s net p = Inr (None, p1) \<longrightarrow>
        initForm net p =
          Inr (console_error [Text ''Failed to load photographer details for the form.''] p1))
   \<and> (request_fails net \<or> (\<exists>ps. answers net ps))"
proof (intro conjI impI)
  show "\<exists>v p'. getPhotographerDetails s net p = Inr (v, p')"
    using fails_or_answers [of net]
  proof
    assume "request_fails net"
    from getPhotographerDetails_fails [OF this, of s p] show ?thesis by blast
  next
    assume "\<exists>ps. answers net ps"
    then obtain ps where "answers net ps" ..
    from getPhotographerDetails_answers [OF this, of s p] show ?thesis by blast
  qed
next
  assume "request_fails net"
  then show "\<exists>e. getPhotographerDetails s net p =
           Inr (None,
                console_error [Text ''Failed to fetch photographer details for form:'', Thrown e]
                  (p\<lparr>requests := requests p @ [the_request]\<rparr>))"
    by (rule getPhotographerDetails_fails)
next
  assume a: "answers net ps \<and> (\<forall>q \<in> set ps. \<not> matches s q)"
  then have none: "find (matches s) ps = None" by (simp add: find_matches_None)
  from a have "answers net ps" ..
  from getPhotographerDetails_answers [OF this, of s p]
  show "\<exists>p'. getPhotographerDetails s net p = Inr (None, p')"
    unfolding none by blast
next
  assume "url_id p = Some s \<and> s \<noteq> [] \<and> getPhotographerDetails s net p = Inr (None, p1)"
  then show "initForm net p =
          Inr (console_error [Text ''Failed to load photographer details for the form.''] p1)"
    by (simp add: initForm_with_identifier)
next
  show "request_fails net \<or> (\<exists>ps. answers net ps)"
    by (rule fails_or_answers)
qed

theorem details_always_resolve_witness:
  "request_fails not_found_response
   \<and> (\<exists>e. getPhotographerDetails (js ''7'') not_found_response good_page =
        Inr (None,
             console_error [Text ''Failed to fetch photographer details for form:'', Thrown e]
               (good_page\<lparr>requests := requests good_page @ [the_request]\<rparr>)))"
proof -
  have f: "request_fails not_found_response"
    by code_simp
  from details_always_resolve [of "js ''7''" not_found_response good_page two_records good_page]
  have "request_fails not_found_response \<longrightarrow>
        (\<exists>e. getPhotographerDetails (js ''7'') not_found_response good_page =
           Inr (None,
                console_error [Text ''Failed to fetch photographer details for form:'', Thrown e]
                  (good_page\<lparr>requests := requests good_page @ [the_request]\<rparr>)))"
    by (rule conjunct2 [THEN conjunct1])
  with f show ?thesis by simp
qed

end
